theory Spec2Isabelle
  imports Main
begin

section \<open>Values of the Python program\<close>

text \<open>
  The client works on whatever \<^verbatim>\<open>json.loads\<close> returns. A parsed value is one of
  Python's \<^verbatim>\<open>None\<close>, \<^verbatim>\<open>bool\<close>, \<^verbatim>\<open>int\<close>, \<^verbatim>\<open>str\<close>, \<^verbatim>\<open>list\<close> and \<^verbatim>\<open>dict\<close>. A dict is kept
  as an association list in insertion order; a lookup takes the first pair with the key.
  JSON numbers with a fraction or an exponent (Python floats) are outside the model.
\<close>

datatype json =
    JNull
  | JBool bool
  | JInt int
  | JStr string
  | JList "json list"
  | JDict "(string \<times> json) list"

text \<open>
  The errors the code can raise. Every \<^verbatim>\<open>raise\<close> of the source is a \<^verbatim>\<open>ValueError\<close> with a
  message; attribute access on a value without \<^verbatim>\<open>.get\<close> is an \<^verbatim>\<open>AttributeError\<close>, iteration
  over or subscripting of a value that does not support it is a \<^verbatim>\<open>TypeError\<close>, a
  missing dict key a \<^verbatim>\<open>KeyError\<close>.
\<close>

datatype py_error = ValueError string | TypeError | AttributeError | KeyError string

type_synonym pairs = "(string \<times> string) list"

subsection \<open>Builtins: \<^verbatim>\<open>str\<close>, \<^verbatim>\<open>repr\<close>, \<^verbatim>\<open>int\<close>, truthiness, \<^verbatim>\<open>dict.get\<close>\<close>

definition digit_char :: "nat \<Rightarrow> char" where
  "digit_char d = ''0123456789'' ! (d mod 10)"

fun dec_nat :: "nat \<Rightarrow> string" where
  "dec_nat n = (if n < 10 then [digit_char n] else dec_nat (n div 10) @ [digit_char n])"

declare dec_nat.simps [simp del]

definition str_int :: "int \<Rightarrow> string" where
  "str_int i = (if i < 0 then CHR ''-'' # dec_nat (nat (- i)) else dec_nat (nat i))"

definition hex_char :: "nat \<Rightarrow> char" where
  "hex_char d = ''0123456789abcdef'' ! (d mod 16)"

definition apostrophe :: char where
  "apostrophe = CHR 0x27"

definition dquote :: char where
  "dquote = CHR 0x22"

definition backslash :: char where
  "backslash = CHR 0x5C"

text \<open>
  \<^verbatim>\<open>repr\<close> of a \<^verbatim>\<open>str\<close>: double quotes when the text has an apostrophe and no double
  quote, apostrophes otherwise; the backslash, the chosen quote, tab, newline and carriage
  return are escaped, other control characters are written \<^verbatim>\<open>\xhh\<close>. Python escapes
  the characters beyond ASCII that are not printable as well; the model has no table of
  them and keeps every byte from 128 on, as Python does for a printable character.
\<close>

definition repr_char :: "char \<Rightarrow> char \<Rightarrow> string" where
  "repr_char q c =
     (if c = backslash then [backslash, backslash]
      else if c = q then [backslash, q]
      else if c = CHR 0x09 then [backslash, CHR ''t'']
      else if c = CHR 0x0A then [backslash, CHR ''n'']
      else if c = CHR 0x0D then [backslash, CHR ''r'']
      else if (of_char c :: nat) < 32 \<or> (of_char c :: nat) = 127
        then [backslash, CHR ''x'', hex_char (of_char c div 16), hex_char (of_char c)]
      else [c])"

definition repr_str :: "string \<Rightarrow> string" where
  "repr_str s =
     (let q = (if apostrophe \<in> set s \<and> dquote \<notin> set s then dquote else apostrophe)
      in q # concat (map (repr_char q) s) @ [q])"

fun join_with :: "string \<Rightarrow> string list \<Rightarrow> string" where
  "join_with sep [] = []"
| "join_with sep [x] = x"
| "join_with sep (x # y # ys) = x @ sep @ join_with sep (y # ys)"

fun py_repr :: "json \<Rightarrow> string" where
  "py_repr JNull = ''None''"
| "py_repr (JBool b) = (if b then ''True'' else ''False'')"
| "py_repr (JInt i) = str_int i"
| "py_repr (JStr s) = repr_str s"
| "py_repr (JList xs) = ''['' @ join_with '', '' (map py_repr xs) @ '']''"
| "py_repr (JDict kvs) =
     ''{'' @ join_with '', '' (map (\<lambda>(k, v). repr_str k @ '': '' @ py_repr v) kvs) @ ''}''"

text \<open>\<^verbatim>\<open>str(x)\<close>: the text itself for a \<^verbatim>\<open>str\<close>, \<^verbatim>\<open>repr(x)\<close> for everything else.\<close>

definition py_str :: "json \<Rightarrow> string" where
  "py_str v = (case v of JStr s \<Rightarrow> s | _ \<Rightarrow> py_repr v)"

text \<open>\<^verbatim>\<open>d.get(k, default)\<close> on a dict.\<close>

definition dict_get :: "(string \<times> json) list \<Rightarrow> string \<Rightarrow> json \<Rightarrow> json" where
  "dict_get kvs k dflt = (case map_of kvs k of None \<Rightarrow> dflt | Some v \<Rightarrow> v)"

text \<open>\<^verbatim>\<open>x.get(k, default)\<close> on any value: only a dict has the method.\<close>

definition py_get :: "json \<Rightarrow> string \<Rightarrow> json \<Rightarrow> py_error + json" where
  "py_get x k dflt = (case x of JDict kvs \<Rightarrow> Inr (dict_get kvs k dflt) | _ \<Rightarrow> Inl AttributeError)"

text \<open>\<^verbatim>\<open>isinstance(x, dict)\<close>.\<close>

definition is_dict :: "json \<Rightarrow> bool" where
  "is_dict x = (case x of JDict _ \<Rightarrow> True | _ \<Rightarrow> False)"

text \<open>Truthiness, as \<^verbatim>\<open>if not x\<close> tests it.\<close>

definition truthy :: "json \<Rightarrow> bool" where
  "truthy x =
     (case x of JNull \<Rightarrow> False | JBool b \<Rightarrow> b | JInt i \<Rightarrow> i \<noteq> 0 | JStr s \<Rightarrow> s \<noteq> []
        | JList xs \<Rightarrow> xs \<noteq> [] | JDict kvs \<Rightarrow> kvs \<noteq> [])"

text \<open>
  A \<^verbatim>\<open>str\<close> is kept as the bytes of its UTF-8 encoding. Its characters are the groups made
  of a byte that starts a character and the continuation bytes (\<^verbatim>\<open>0x80\<close> to \<^verbatim>\<open>0xBF\<close>)
  that follow it.
\<close>

definition is_continuation :: "char \<Rightarrow> bool" where
  "is_continuation c = ((128::nat) \<le> of_char c \<and> (of_char c :: nat) < 192)"

function utf8_chars :: "string \<Rightarrow> string list" where
  "utf8_chars [] = []"
| "utf8_chars (c # cs) = (c # takeWhile is_continuation cs) # utf8_chars (dropWhile is_continuation cs)"
  by pat_completeness auto
termination
  by (relation "measure length") (auto simp: length_dropWhile_le less_Suc_eq_le)

text \<open>
  \<^verbatim>\<open>for x in v\<close>: the elements of a list, the one-character strings of a \<^verbatim>\<open>str\<close>, the keys
  of a dict; anything else is not iterable.
\<close>

definition py_iter :: "json \<Rightarrow> py_error + json list" where
  "py_iter v =
     (case v of JList xs \<Rightarrow> Inr xs
        | JStr s \<Rightarrow> Inr (map JStr (utf8_chars s))
        | JDict kvs \<Rightarrow> Inr (map (\<lambda>(k, _). JStr k) kvs)
        | _ \<Rightarrow> Inl TypeError)"

fun starts_with :: "string \<Rightarrow> string \<Rightarrow> bool" where
  "starts_with s [] = True"
| "starts_with [] (p # ps) = False"
| "starts_with (c # s) (p # ps) = (c = p \<and> starts_with s ps)"

text \<open>\<^verbatim>\<open>sub in s\<close> on strings.\<close>

fun contains_str :: "string \<Rightarrow> string \<Rightarrow> bool" where
  "contains_str [] sub = (sub = [])"
| "contains_str (c # s) sub = (starts_with (c # s) sub \<or> contains_str s sub)"

text \<open>\<^verbatim>\<open>s.upper()\<close> on the ASCII letters.\<close>

definition upper_char :: "char \<Rightarrow> char" where
  "upper_char c =
     (if (97::nat) \<le> of_char c \<and> (of_char c :: nat) \<le> 122 then char_of (of_char c - (32::nat)) else c)"

definition upper :: "string \<Rightarrow> string" where
  "upper s = map upper_char s"


subsection \<open>Library functions: \<^verbatim>\<open>urllib.parse.urlencode\<close>, dict merge\<close>

definition HEX_char :: "nat \<Rightarrow> char" where
  "HEX_char d = ''0123456789ABCDEF'' ! (d mod 16)"

definition unreserved :: "char \<Rightarrow> bool" where
  "unreserved c =
     (c \<in> set ''ABCDEFGHIJKLMNOPQRSTUVWXYZabcdefghijklmnopqrstuvwxyz0123456789_.-~'')"

definition quote_plus_char :: "char \<Rightarrow> string" where
  "quote_plus_char c =
     (if c = CHR '' '' then ''+''
      else if unreserved c then [c]
      else [CHR ''%'', HEX_char (of_char c div 16), HEX_char (of_char c)])"

definition quote_plus :: "string \<Rightarrow> string" where
  "quote_plus s = concat (map quote_plus_char s)"

definition encode_pair :: "string \<times> string \<Rightarrow> string" where
  "encode_pair kv = quote_plus (fst kv) @ ''='' @ quote_plus (snd kv)"

definition urlencode :: "pairs \<Rightarrow> string" where
  "urlencode ps = join_with ''&'' (map encode_pair ps)"

text \<open>\<^verbatim>\<open>d[k] = v\<close> on an insertion-ordered dict: an existing key keeps its place.\<close>

fun dict_set :: "pairs \<Rightarrow> string \<Rightarrow> string \<Rightarrow> pairs" where
  "dict_set [] k v = [(k, v)]"
| "dict_set ((k', v') # d) k v = (if k' = k then (k, v) # d else (k', v') # dict_set d k v)"

text \<open>\<^verbatim>\<open>{**a, **b}\<close>.\<close>

fun dict_merge :: "pairs \<Rightarrow> pairs \<Rightarrow> pairs" where
  "dict_merge a [] = a"
| "dict_merge a ((k, v) # b) = dict_merge (dict_set a k v) b"

section \<open>The world outside the client\<close>

text \<open>
  A request as \<^verbatim>\<open>urllib.request.Request\<close> holds it (method, URL, body, headers), together
  with the endpoint and the parameter pairs it was encoded from, which a server reads
  back from the wire.
\<close>

record request =
  req_method :: string
  req_endpoint :: string
  req_params :: pairs
  req_url :: string
  req_body :: "string option"
  req_headers :: pairs

text \<open>
  What \<^verbatim>\<open>urlopen\<close>, \<^verbatim>\<open>read\<close>, \<^verbatim>\<open>decode\<close> and \<^verbatim>\<open>json.loads\<close> make of one request: the
  transport fails with an exception text, the body is not JSON (with the parser's text),
  or the body parses.
\<close>

datatype response = TransportError string | InvalidJson string | JsonBody json

text \<open>
  The environment: the server answers a request knowing all earlier requests; the
  random salt of the n-th request; the MD5 hex digest; what \<^verbatim>\<open>int\<close> makes of a \<^verbatim>\<open>str\<close>
  that has characters beyond ASCII (Python reads the decimal digits and the whitespace of
  every script); the interpreter's \<^verbatim>\<open>sys.int_max_str_digits\<close> (0 for no limit).
\<close>

record env =
  server :: "request list \<Rightarrow> request \<Rightarrow> response"
  salts :: "nat \<Rightarrow> string"
  md5_hex :: "string \<Rightarrow> string"
  int_of_unicode :: "string \<Rightarrow> int option"
  int_max_str_digits :: nat

text \<open>
  The mutable state: the module-level \<^verbatim>\<open>_global_cache\<close> (\<^verbatim>\<open>None\<close> until the first client
  with caching is built, then one \<^verbatim>\<open>NavidromeCache\<close> whose dict every such client shares),
  and the requests handed to \<^verbatim>\<open>urlopen\<close> so far.
\<close>

record world =
  global_cache :: "(string \<rightharpoonup> json) option"
  net_log :: "request list"

record client =
  base_url :: string
  username :: string
  password :: string
  api_version :: string
  app_name :: string
  verify_ssl :: bool
  timeout_seconds :: int
  enable_cache :: bool

section \<open>NavidromeCache and the global cache\<close>

definition get_global_cache :: "bool \<Rightarrow> world \<Rightarrow> world" where
  "get_global_cache enable w =
     (if \<not> enable then w
      else if global_cache w = None then w\<lparr>global_cache := Some Map.empty\<rparr>
      else w)"

definition clear_global_cache :: "world \<Rightarrow> world" where
  "clear_global_cache w =
     (case global_cache w of None \<Rightarrow> w | Some _ \<Rightarrow> w\<lparr>global_cache := Some Map.empty\<rparr>)"

text \<open>\<^verbatim>\<open>SubsonicClient.__init__\<close>: one trailing slash is dropped from the base URL.\<close>

definition init_client ::
  "string \<Rightarrow> string \<Rightarrow> string \<Rightarrow> bool \<Rightarrow> world \<Rightarrow> client \<times> world" where
  "init_client url user pw cache_on w =
     (\<lparr>base_url = (if url \<noteq> [] \<and> last url = CHR ''/'' then butlast url else url),
       username = user, password = pw, api_version = ''1.16.1'',
       app_name = ''PicardNavidrome'', verify_ssl = True, timeout_seconds = 15,
       enable_cache = cache_on\<rparr>,
      get_global_cache cache_on w)"

definition clear_cache :: "client \<Rightarrow> world \<Rightarrow> world" where
  "clear_cache c w = clear_global_cache w"

text \<open>
  \<^verbatim>\<open>self.cache.get(key)\<close> for a client whose \<^verbatim>\<open>self.cache\<close> is the global cache
  (\<^verbatim>\<open>None\<close> for a key that is not stored), and \<^verbatim>\<open>self.cache.set(key, data)\<close>. A client
  with caching was built by \<^verbatim>\<open>__init__\<close>, which creates the global cache, so the branch for
  a missing global cache is never taken in a run of the program.
\<close>

definition cache_get :: "world \<Rightarrow> string \<Rightarrow> json" where
  "cache_get w key =
     (case global_cache w of
        None \<Rightarrow> JNull
      | Some m \<Rightarrow> (case m key of None \<Rightarrow> JNull | Some data \<Rightarrow> data))"

definition cache_set :: "string \<Rightarrow> json \<Rightarrow> world \<Rightarrow> world" where
  "cache_set key data w =
     (case global_cache w of
        None \<Rightarrow> w\<lparr>global_cache := Some [key \<mapsto> data]\<rparr>
      | Some m \<Rightarrow> w\<lparr>global_cache := Some (m(key \<mapsto> data))\<rparr>)"

section \<open>The request executor\<close>

text \<open>
  The methods \<^verbatim>\<open>_auth_params\<close>, \<^verbatim>\<open>_request\<close>, \<^verbatim>\<open>_get\<close> and \<^verbatim>\<open>_post\<close> of the source carry
  the prefix \<open>priv\<close> here. \<open>build_request\<close> is the first half of \<^verbatim>\<open>_request\<close>, up to
  the \<^verbatim>\<open>Request\<close> object; the number of requests made so far picks the salt. The base
  URL of a client is one that \<^verbatim>\<open>urllib.request.Request\<close> accepts, that is, one with a
  scheme: for any other the constructor raises before anything is handed to \<^verbatim>\<open>urlopen\<close>,
  and such clients are outside the model.
\<close>

definition priv_auth_params :: "env \<Rightarrow> client \<Rightarrow> nat \<Rightarrow> pairs" where
  "priv_auth_params e c n =
     (let salt = salts e n; token = md5_hex e (password c @ salt)
      in [(''u'', username c), (''t'', token), (''s'', salt), (''v'', api_version c),
          (''c'', app_name c), (''f'', ''json'')])"

definition norm_endpoint :: "string \<Rightarrow> string" where
  "norm_endpoint endpoint = (if starts_with endpoint ''/'' then endpoint else ''/'' @ endpoint)"

definition song_id_pairs :: "string list \<Rightarrow> pairs" where
  "song_id_pairs song_ids = map (\<lambda>sid. (''songId'', sid)) song_ids"

definition build_request ::
  "env \<Rightarrow> client \<Rightarrow> string \<Rightarrow> pairs \<Rightarrow> string \<Rightarrow> string list option \<Rightarrow> nat \<Rightarrow> request" where
  "build_request e c endpoint params method song_ids n =
     (let ep = norm_endpoint endpoint;
          all_params = dict_merge (priv_auth_params e c n) params;
          url = base_url c @ ep
      in if upper method = ''GET''
         then \<lparr>req_method = ''GET'', req_endpoint = ep, req_params = all_params,
               req_url = url @ ''?'' @ urlencode all_params, req_body = None,
               req_headers = []\<rparr>
         else let param_pairs =
                    (case song_ids of
                       None \<Rightarrow> all_params
                     | Some [] \<Rightarrow> all_params
                     | Some (sid # sids) \<Rightarrow> all_params @ song_id_pairs (sid # sids))
              in \<lparr>req_method = ''POST'', req_endpoint = ep, req_params = param_pairs,
                  req_url = url, req_body = Some (urlencode param_pairs),
                  req_headers = [(''Content-Type'', ''application/x-www-form-urlencoded'')]\<rparr>)"

definition missing_envelope_msg :: string where
  "missing_envelope_msg =
     ''Unexpected response: missing '' @ [apostrophe] @ ''subsonic-response'' @ [apostrophe]"

text \<open>\<^verbatim>\<open>key in payload\<close> and \<^verbatim>\<open>payload[key]\<close> for a string key.\<close>

definition py_contains :: "json \<Rightarrow> string \<Rightarrow> py_error + bool" where
  "py_contains payload key =
     (case payload of
        JDict kvs \<Rightarrow> Inr (map_of kvs key \<noteq> None)
      | JList xs \<Rightarrow> Inr (List.member xs (JStr key))
      | JStr s \<Rightarrow> Inr (contains_str s key)
      | _ \<Rightarrow> Inl TypeError)"

definition py_subscript :: "json \<Rightarrow> string \<Rightarrow> py_error + json" where
  "py_subscript payload key =
     (case payload of
        JDict kvs \<Rightarrow> (case map_of kvs key of None \<Rightarrow> Inl (KeyError key) | Some v \<Rightarrow> Inr v)
      | _ \<Rightarrow> Inl TypeError)"

text \<open>The part of \<^verbatim>\<open>_request\<close> after \<^verbatim>\<open>json.loads\<close>: the envelope and its status.\<close>

definition check_envelope :: "json \<Rightarrow> py_error + (string \<times> json) list" where
  "check_envelope payload =
     (case py_contains payload ''subsonic-response'' of
        Inl err \<Rightarrow> Inl err
      | Inr False \<Rightarrow> Inl (ValueError missing_envelope_msg)
      | Inr True \<Rightarrow>
          (case py_subscript payload ''subsonic-response'' of
             Inl err \<Rightarrow> Inl err
           | Inr resp \<Rightarrow>
               (case resp of
                  JDict kvs \<Rightarrow>
                    if dict_get kvs ''status'' JNull \<noteq> JStr ''ok''
                    then (case py_get (dict_get kvs ''error'' (JDict [])) ''code'' JNull of
                            Inl err \<Rightarrow> Inl err
                          | Inr code \<Rightarrow>
                              (case py_get (dict_get kvs ''error'' (JDict [])) ''message'' JNull of
                                 Inl err \<Rightarrow> Inl err
                               | Inr msg \<Rightarrow>
                                   Inl (ValueError (''Subsonic error '' @ py_str code @ '': '' @ py_str msg))))
                    else Inr kvs
                | _ \<Rightarrow> Inl AttributeError)))"

definition priv_request ::
  "env \<Rightarrow> client \<Rightarrow> string \<Rightarrow> pairs \<Rightarrow> string \<Rightarrow> string list option \<Rightarrow> world
     \<Rightarrow> (py_error + (string \<times> json) list) \<times> world" where
  "priv_request e c endpoint params method song_ids w =
     (let req = build_request e c endpoint params method song_ids (length (net_log w));
          w' = w\<lparr>net_log := net_log w @ [req]\<rparr>
      in case server e (net_log w) req of
           TransportError exc \<Rightarrow>
             (Inl (ValueError (''HTTP error calling '' @ req_endpoint req @ '': '' @ exc)), w')
         | InvalidJson exc \<Rightarrow>
             (Inl (ValueError (''Invalid JSON from '' @ req_endpoint req @ '': '' @ exc)), w')
         | JsonBody payload \<Rightarrow> (check_envelope payload, w'))"

definition priv_get ::
  "env \<Rightarrow> client \<Rightarrow> string \<Rightarrow> pairs \<Rightarrow> world \<Rightarrow> (py_error + (string \<times> json) list) \<times> world" where
  "priv_get e c endpoint params w = priv_request e c endpoint params ''GET'' None w"

definition priv_post ::
  "env \<Rightarrow> client \<Rightarrow> string \<Rightarrow> pairs \<Rightarrow> string list option \<Rightarrow> world
     \<Rightarrow> (py_error + (string \<times> json) list) \<times> world" where
  "priv_post e c endpoint params song_ids w = priv_request e c endpoint params ''POST'' song_ids w"


section \<open>The catalog client\<close>

text \<open>The singleton normalisation that follows each list-shaped field in the source.\<close>

definition wrap_single :: "json \<Rightarrow> json" where
  "wrap_single v = (if is_dict v then JList [v] else v)"

text \<open>
  \<^verbatim>\<open>resp.get(outer, {}).get(inner, [])\<close> followed by the normalisation; the second
  \<^verbatim>\<open>.get\<close> raises when the outer field is not a dict.
\<close>

definition list_field :: "(string \<times> json) list \<Rightarrow> string \<Rightarrow> string \<Rightarrow> py_error + json" where
  "list_field resp outer inner =
     (case py_get (dict_get resp outer (JDict [])) inner (JList []) of
        Inl err \<Rightarrow> Inl err
      | Inr v \<Rightarrow> Inr (wrap_single v))"

definition ping :: "env \<Rightarrow> client \<Rightarrow> world \<Rightarrow> (py_error + bool) \<times> world" where
  "ping e c w =
     (case priv_get e c ''/rest/ping.view'' [] w of
        (Inl err, w') \<Rightarrow> (Inl err, w')
      | (Inr resp, w') \<Rightarrow> (Inr (dict_get resp ''status'' JNull = JStr ''ok''), w'))"

definition get_playlists :: "env \<Rightarrow> client \<Rightarrow> world \<Rightarrow> (py_error + json) \<times> world" where
  "get_playlists e c w =
     (case priv_get e c ''/rest/getPlaylists.view'' [] w of
        (Inl err, w') \<Rightarrow> (Inl err, w')
      | (Inr resp, w') \<Rightarrow> (list_field resp ''playlists'' ''playlist'', w'))"

definition get_playlist_tracks ::
  "env \<Rightarrow> client \<Rightarrow> string \<Rightarrow> world \<Rightarrow> (py_error + json) \<times> world" where
  "get_playlist_tracks e c playlist_id w =
     (case priv_get e c ''/rest/getPlaylist.view'' [(''id'', playlist_id)] w of
        (Inl err, w') \<Rightarrow> (Inl err, w')
      | (Inr resp, w') \<Rightarrow> (list_field resp ''playlist'' ''entry'', w'))"

definition create_playlist ::
  "env \<Rightarrow> client \<Rightarrow> string \<Rightarrow> string list \<Rightarrow> world \<Rightarrow> (py_error + string option) \<times> world" where
  "create_playlist e c name song_ids w =
     (case priv_post e c ''/rest/createPlaylist.view'' [(''name'', name)] (Some song_ids) w of
        (Inl err, w') \<Rightarrow> (Inl err, w')
      | (Inr resp, w') \<Rightarrow>
          (let pl = dict_get resp ''playlist'' (JDict []);
               pl_id = (case pl of JDict kvs \<Rightarrow> py_str (dict_get kvs ''id'' (JStr [])) | _ \<Rightarrow> [])
           in (Inr (if pl_id = [] then None else Some pl_id), w')))"

definition update_playlist ::
  "env \<Rightarrow> client \<Rightarrow> string \<Rightarrow> string option \<Rightarrow> bool option \<Rightarrow> world
     \<Rightarrow> (py_error + unit) \<times> world" where
  "update_playlist e c playlist_id name public w =
     (let params = [(''playlistId'', playlist_id)]
            @ (case name of None \<Rightarrow> [] | Some n \<Rightarrow> [(''name'', n)])
            @ (case public of None \<Rightarrow> []
                 | Some b \<Rightarrow> [(''public'', if b then ''true'' else ''false'')])
      in case priv_post e c ''/rest/updatePlaylist.view'' params None w of
           (Inl err, w') \<Rightarrow> (Inl err, w')
         | (Inr resp, w') \<Rightarrow> (Inr (), w'))"

definition delete_playlist ::
  "env \<Rightarrow> client \<Rightarrow> string \<Rightarrow> world \<Rightarrow> (py_error + unit) \<times> world" where
  "delete_playlist e c playlist_id w =
     (case priv_post e c ''/rest/deletePlaylist.view'' [(''id'', playlist_id)] None w of
        (Inl err, w') \<Rightarrow> (Inl err, w')
      | (Inr resp, w') \<Rightarrow> (Inr (), w'))"

definition search_songs ::
  "env \<Rightarrow> client \<Rightarrow> string \<Rightarrow> int \<Rightarrow> int \<Rightarrow> world \<Rightarrow> (py_error + json) \<times> world" where
  "search_songs e c query count offset w =
     (case priv_get e c ''/rest/search3.view''
             [(''query'', query), (''songCount'', str_int count), (''songOffset'', str_int offset)] w of
        (Inl err, w') \<Rightarrow> (Inl err, w')
      | (Inr resp, w') \<Rightarrow> (list_field resp ''searchResult3'' ''song'', w'))"

definition album_list2_key :: "client \<Rightarrow> string \<Rightarrow> int \<Rightarrow> int \<Rightarrow> string" where
  "album_list2_key c list_type sz offset =
     base_url c @ ''_album_list2_'' @ list_type @ ''_'' @ str_int sz @ ''_'' @ str_int offset"

definition album_list2_params :: "string \<Rightarrow> int \<Rightarrow> int \<Rightarrow> pairs" where
  "album_list2_params list_type sz offset =
     [(''type'', list_type), (''size'', str_int sz), (''offset'', str_int offset)]"

definition get_album_list2 ::
  "env \<Rightarrow> client \<Rightarrow> string \<Rightarrow> int \<Rightarrow> int \<Rightarrow> world \<Rightarrow> (py_error + json) \<times> world" where
  "get_album_list2 e c list_type sz offset w =
     (let cache_key = album_list2_key c list_type sz offset
      in if enable_cache c \<and> cache_get w cache_key \<noteq> JNull
         then (Inr (cache_get w cache_key), w)
         else (case priv_get e c ''/rest/getAlbumList2.view''
                      (album_list2_params list_type sz offset) w of
                 (Inl err, w') \<Rightarrow> (Inl err, w')
               | (Inr resp, w') \<Rightarrow>
                   (case list_field resp ''albumList2'' ''album'' of
                      Inl err \<Rightarrow> (Inl err, w')
                    | Inr albums \<Rightarrow>
                        (Inr albums, if enable_cache c then cache_set cache_key albums w' else w'))))"

definition album_key :: "client \<Rightarrow> string \<Rightarrow> string" where
  "album_key c album_id = base_url c @ ''_album_'' @ album_id"

definition get_album :: "env \<Rightarrow> client \<Rightarrow> string \<Rightarrow> world \<Rightarrow> (py_error + json) \<times> world" where
  "get_album e c album_id w =
     (let cache_key = album_key c album_id
      in if enable_cache c \<and> cache_get w cache_key \<noteq> JNull
         then (Inr (cache_get w cache_key), w)
         else (case priv_get e c ''/rest/getAlbum.view'' [(''id'', album_id)] w of
                 (Inl err, w') \<Rightarrow> (Inl err, w')
               | (Inr resp, w') \<Rightarrow>
                   (case list_field resp ''album'' ''song'' of
                      Inl err \<Rightarrow> (Inl err, w')
                    | Inr songs \<Rightarrow>
                        (Inr songs, if enable_cache c then cache_set cache_key songs w' else w'))))"


section \<open>The library streamer\<close>

text \<open>
  \<^verbatim>\<open>int(sc)\<close> inside \<^verbatim>\<open>try\<close>: an \<^verbatim>\<open>int\<close> is itself, a \<^verbatim>\<open>bool\<close> is 0 or 1, a \<^verbatim>\<open>str\<close>
  is parsed; everything else raises, which the caller ignores. An ASCII \<^verbatim>\<open>str\<close> is read
  as Python reads it: whitespace (space, tab, newline, vertical tab, form feed, carriage
  return) around an optional sign and decimal digits, with single underscores between
  digits, and no more digits than the interpreter's limit allows (the limit applies
  above 640 digits). A \<^verbatim>\<open>str\<close> with characters beyond ASCII is read by the environment.
\<close>

definition is_space :: "char \<Rightarrow> bool" where
  "is_space c = (c \<in> set [CHR '' '', CHR 0x09, CHR 0x0A, CHR 0x0B, CHR 0x0C, CHR 0x0D])"

definition strip :: "string \<Rightarrow> string" where
  "strip s = rev (dropWhile is_space (rev (dropWhile is_space s)))"

definition is_digit :: "char \<Rightarrow> bool" where
  "is_digit c = ((48::nat) \<le> of_char c \<and> (of_char c :: nat) \<le> 57)"

definition digit_val :: "char \<Rightarrow> nat" where
  "digit_val c = of_char c - 48"

definition is_ascii :: "char \<Rightarrow> bool" where
  "is_ascii c = ((of_char c :: nat) < 128)"

fun parse_digits :: "bool \<Rightarrow> nat \<Rightarrow> string \<Rightarrow> nat option" where
  "parse_digits prev acc [] = (if prev then Some acc else None)"
| "parse_digits prev acc (c # cs) =
     (if is_digit c then parse_digits True (10 * acc + digit_val c) cs
      else if c = CHR ''_'' \<and> prev then parse_digits False acc cs
      else None)"

definition too_many_digits :: "env \<Rightarrow> string \<Rightarrow> bool" where
  "too_many_digits e s =
     (0 < int_max_str_digits e \<and> 640 < length (filter is_digit s)
      \<and> int_max_str_digits e < length (filter is_digit s))"

definition int_of_str :: "env \<Rightarrow> string \<Rightarrow> int option" where
  "int_of_str e s =
     (if \<not> list_all is_ascii s then int_of_unicode e s
      else if too_many_digits e s then None
      else
        (case strip s of
           [] \<Rightarrow> None
         | c # cs \<Rightarrow>
             if c = CHR ''-'' then map_option (\<lambda>n. - int n) (parse_digits False 0 cs)
             else if c = CHR ''+'' then map_option int (parse_digits False 0 cs)
             else map_option int (parse_digits False 0 (c # cs))))"

definition py_int :: "env \<Rightarrow> json \<Rightarrow> int option" where
  "py_int e v =
     (case v of
        JInt i \<Rightarrow> Some i
      | JBool b \<Rightarrow> Some (if b then 1 else 0)
      | JStr s \<Rightarrow> int_of_str e s
      | _ \<Rightarrow> None)"

text \<open>
  What the consumer of the generator and the two callbacks observe, in order: a poll of
  the cancellation predicate with its answer, a call of the progress callback, a song
  handed out by \<^verbatim>\<open>yield\<close>.
\<close>

datatype event = Checkpoint bool | Progress int int | Yield json

text \<open>
  \<^verbatim>\<open>cancel_flag\<close> is an optional callable; its answer may depend on everything that has
  happened so far. \<^verbatim>\<open>if cancel_flag and cancel_flag()\<close>:
\<close>

type_synonym cancel = "(event list \<Rightarrow> bool) option"

definition poll :: "cancel \<Rightarrow> event list \<Rightarrow> bool \<times> event list" where
  "poll cancel_flag tr =
     (case cancel_flag of
        None \<Rightarrow> (False, tr)
      | Some f \<Rightarrow> (f tr, tr @ [Checkpoint (f tr)]))"

text \<open>
  \<^verbatim>\<open>progress_cb\<close> is an optional callable whose own failures are swallowed: all that
  matters is whether one was given, and then each call is an event.
\<close>

definition report :: "bool \<Rightarrow> int \<Rightarrow> int \<Rightarrow> event list" where
  "report progress_cb fetched total_songs =
     (if progress_cb then [Progress fetched total_songs] else [])"

text \<open>The inner loop of pass 1: the song counts of one page.\<close>

fun count_page :: "env \<Rightarrow> json list \<Rightarrow> int \<Rightarrow> py_error + int" where
  "count_page e [] page_song_count = Inr page_song_count"
| "count_page e (album # rest) page_song_count =
     (case py_get album ''songCount'' (JInt 0) of
        Inl err \<Rightarrow> Inl err
      | Inr sc \<Rightarrow>
          count_page e rest (case py_int e sc of None \<Rightarrow> page_song_count
                               | Some n \<Rightarrow> page_song_count + n))"

datatype pass1_result = P1Raise py_error | P1Return | P1Done int "json list"

text \<open>
  Pass 1, the \<^verbatim>\<open>while pages < max_pages\<close> loop, with the loop variables as arguments.
\<close>

function pass1 ::
  "env \<Rightarrow> client \<Rightarrow> cancel \<Rightarrow> int \<Rightarrow> int \<Rightarrow> int \<Rightarrow> int \<Rightarrow> int \<Rightarrow> json list \<Rightarrow> world \<Rightarrow> event list
     \<Rightarrow> pass1_result \<times> world \<times> event list" where
  "pass1 e c cancel_flag page_size max_pages pages offset total_songs all_albums w tr =
     (if pages < max_pages then
        (case poll cancel_flag tr of
           (True, tr') \<Rightarrow> (P1Return, w, tr')
         | (False, tr') \<Rightarrow>
             (case get_album_list2 e c ''alphabeticalByName'' page_size offset w of
                (Inl err, w') \<Rightarrow> (P1Raise err, w', tr')
              | (Inr albums, w') \<Rightarrow>
                  if \<not> truthy albums then (P1Done total_songs all_albums, w', tr')
                  else
                    (case py_iter albums of
                       Inl err \<Rightarrow> (P1Raise err, w', tr')
                     | Inr items \<Rightarrow>
                         (case count_page e items 0 of
                            Inl err \<Rightarrow> (P1Raise err, w', tr')
                          | Inr page_song_count \<Rightarrow>
                              if int (length items) < page_size
                              then (P1Done (total_songs + page_song_count) (all_albums @ items), w', tr')
                              else pass1 e c cancel_flag page_size max_pages (pages + 1)
                                     (offset + page_size) (total_songs + page_song_count)
                                     (all_albums @ items) w' tr'))))
      else (P1Done total_songs all_albums, w, tr))"
  by pat_completeness auto
termination
  by (relation "measure (\<lambda>(e, c, cancel_flag, page_size, max_pages, pages, rest). nat (max_pages - pages))")
    auto

declare pass1.simps [simp del]

text \<open>
  The inner loop of pass 2 over the songs of one album. The flag says whether the
  generator returned at a checkpoint.
\<close>

fun song_loop ::
  "cancel \<Rightarrow> bool \<Rightarrow> int \<Rightarrow> json list \<Rightarrow> int \<Rightarrow> event list \<Rightarrow> bool \<times> int \<times> event list" where
  "song_loop cancel_flag progress_cb total_songs [] fetched tr = (False, fetched, tr)"
| "song_loop cancel_flag progress_cb total_songs (s # rest) fetched tr =
     (case poll cancel_flag tr of
        (True, tr') \<Rightarrow> (True, fetched, tr')
      | (False, tr') \<Rightarrow>
          song_loop cancel_flag progress_cb total_songs rest (fetched + 1)
            (tr' @ report progress_cb (fetched + 1) total_songs @ [Yield s]))"

datatype pass2_result = P2Raise py_error | P2Return | P2Done int

text \<open>Pass 2, the loop over the albums collected by pass 1.\<close>

fun pass2 ::
  "env \<Rightarrow> client \<Rightarrow> cancel \<Rightarrow> bool \<Rightarrow> int \<Rightarrow> json list \<Rightarrow> int \<Rightarrow> world \<Rightarrow> event list
     \<Rightarrow> pass2_result \<times> world \<times> event list" where
  "pass2 e c cancel_flag progress_cb total_songs [] fetched w tr = (P2Done fetched, w, tr)"
| "pass2 e c cancel_flag progress_cb total_songs (album # rest) fetched w tr =
     (case poll cancel_flag tr of
        (True, tr') \<Rightarrow> (P2Return, w, tr')
      | (False, tr') \<Rightarrow>
          (case py_get album ''id'' (JStr []) of
             Inl err \<Rightarrow> (P2Raise err, w, tr')
           | Inr id_value \<Rightarrow>
               if py_str id_value = []
               then pass2 e c cancel_flag progress_cb total_songs rest fetched w tr'
               else
                 (case get_album e c (py_str id_value) w of
                    (res, w') \<Rightarrow>
                      (case py_iter (case res of Inl err \<Rightarrow> JList [] | Inr songs \<Rightarrow> songs) of
                         Inl err \<Rightarrow> (P2Raise err, w', tr')
                       | Inr items \<Rightarrow>
                           (case song_loop cancel_flag progress_cb total_songs items fetched tr' of
                              (True, fetched', tr'') \<Rightarrow> (P2Return, w', tr'')
                            | (False, fetched', tr'') \<Rightarrow>
                                pass2 e c cancel_flag progress_cb total_songs rest fetched' w' tr'')))))"

text \<open>
  The generator run until it ends: the error it raised, if any, the world it leaves and
  the events in order. A consumer that stops early sees a prefix of the events.
\<close>

definition iter_all_songs_stream ::
  "env \<Rightarrow> client \<Rightarrow> int \<Rightarrow> int \<Rightarrow> bool \<Rightarrow> cancel \<Rightarrow> world \<Rightarrow> py_error option \<times> world \<times> event list" where
  "iter_all_songs_stream e c page_size max_pages progress_cb cancel_flag w =
     (case pass1 e c cancel_flag page_size max_pages 0 0 0 [] w [] of
        (P1Raise err, w', tr) \<Rightarrow> (Some err, w', tr)
      | (P1Return, w', tr) \<Rightarrow> (None, w', tr)
      | (P1Done total_songs all_albums, w', tr) \<Rightarrow>
          (case pass2 e c cancel_flag progress_cb total_songs all_albums 0 w'
                  (tr @ report progress_cb 0 total_songs) of
             (P2Raise err, w'', tr') \<Rightarrow> (Some err, w'', tr')
           | (P2Return, w'', tr') \<Rightarrow> (None, w'', tr')
           | (P2Done fetched, w'', tr') \<Rightarrow>
               (None, w'', tr' @ report progress_cb fetched total_songs)))"

text \<open>The songs a run hands out, and the calls of the progress callback it makes.\<close>

fun yielded :: "event list \<Rightarrow> json list" where
  "yielded [] = []"
| "yielded (Yield s # tr) = s # yielded tr"
| "yielded (ev # tr) = yielded tr"

fun progress_calls :: "event list \<Rightarrow> (int \<times> int) list" where
  "progress_calls [] = []"
| "progress_calls (Progress fetched total_songs # tr) = (fetched, total_songs) # progress_calls tr"
| "progress_calls (ev # tr) = progress_calls tr"


section \<open>Concrete environments\<close>

text \<open>
  Servers and clients to run the model on. The digest function of these environments and
  their reading of numbers beyond ASCII are stand-ins: the runs below never reach them,
  and the properties that hold for every run are stated for every environment.
\<close>

definition envelope :: "(string \<times> json) list \<Rightarrow> response" where
  "envelope payload =
     JsonBody (JDict [(''subsonic-response'', JDict ((''status'', JStr ''ok'') # payload))])"

definition nat_of_dec :: "string \<Rightarrow> nat" where
  "nat_of_dec s = foldl (\<lambda>acc c. 10 * acc + digit_val c) 0 s"

text \<open>
  A server holding a catalog of albums: an album-list request is answered with the slice
  of the catalog that its size and offset ask for, an album request with whatever
  \<open>songs_of\<close> gives for the id.
\<close>

definition library_server ::
  "json list \<Rightarrow> (string \<Rightarrow> response) \<Rightarrow> request list \<Rightarrow> request \<Rightarrow> response" where
  "library_server catalog songs_of history req =
     (if req_endpoint req = ''/rest/getAlbumList2.view'' then
        (case (map_of (req_params req) ''size'', map_of (req_params req) ''offset'') of
           (Some sz, Some off) \<Rightarrow>
             envelope [(''albumList2'',
               JDict [(''album'', JList (take (nat_of_dec sz) (drop (nat_of_dec off) catalog)))])]
         | _ \<Rightarrow> TransportError ''400'')
      else if req_endpoint req = ''/rest/getAlbum.view'' then
        (case map_of (req_params req) ''id'' of
           Some album_id \<Rightarrow> songs_of album_id
         | None \<Rightarrow> TransportError ''400'')
      else envelope [])"

definition env_of :: "(request list \<Rightarrow> request \<Rightarrow> response) \<Rightarrow> env" where
  "env_of srv =
     \<lparr>server = srv, salts = (\<lambda>n. ''abcdefghijkl''), md5_hex = (\<lambda>s. ''0cc175b9c0f1b6a8''),
      int_of_unicode = (\<lambda>s. None), int_max_str_digits = 4300\<rparr>"

definition fixed_server :: "response \<Rightarrow> request list \<Rightarrow> request \<Rightarrow> response" where
  "fixed_server r history req = r"

definition demo_client :: "bool \<Rightarrow> client" where
  "demo_client cache_on =
     \<lparr>base_url = ''http://nav'', username = ''user'', password = ''secret'',
      api_version = ''1.16.1'', app_name = ''PicardNavidrome'', verify_ssl = True,
      timeout_seconds = 15, enable_cache = cache_on\<rparr>"

definition fresh_world :: world where
  "fresh_world = \<lparr>global_cache = None, net_log = []\<rparr>"

definition cached_world :: world where
  "cached_world = \<lparr>global_cache = Some Map.empty, net_log = []\<rparr>"

definition mk_album :: "string \<Rightarrow> int \<Rightarrow> json" where
  "mk_album album_id song_count = JDict [(''id'', JStr album_id), (''songCount'', JInt song_count)]"

definition mk_song :: "string \<Rightarrow> json" where
  "mk_song song_id = JDict [(''id'', JStr song_id)]"

definition songs_response :: "json list \<Rightarrow> response" where
  "songs_response songs = envelope [(''album'', JDict [(''song'', JList songs)])]"

text \<open>A response that carries the same value in every list-shaped field.\<close>

definition shaped_fields :: "json \<Rightarrow> json" where
  "shaped_fields x = JDict [(''song'', x), (''playlist'', x), (''entry'', x), (''album'', x)]"

definition shaped_payload :: "json \<Rightarrow> (string \<times> json) list" where
  "shaped_payload x =
     [(''album'', shaped_fields x), (''playlists'', shaped_fields x), (''playlist'', shaped_fields x),
      (''searchResult3'', shaped_fields x), (''albumList2'', shaped_fields x)]"

definition shaped_env :: "json \<Rightarrow> env" where
  "shaped_env x = env_of (fixed_server (envelope (shaped_payload x)))"

text \<open>
  A server whose first answer to an album-list request has \<^verbatim>\<open>null\<close> in the place of the
  albums and whose later answers have one album.
\<close>

definition null_first_server :: "request list \<Rightarrow> request \<Rightarrow> response" where
  "null_first_server history req =
     (if history = [] then envelope [(''albumList2'', JDict [(''album'', JNull)])]
      else envelope [(''albumList2'', JDict [(''album'', JList [mk_album ''a'' 1])])])"

text \<open>A catalog of three albums; the songs of the middle one cannot be fetched.\<close>

definition three_albums :: "json list" where
  "three_albums = [mk_album ''a'' 1, mk_album ''b'' 1, mk_album ''c'' 1]"

definition middle_fails :: "string \<Rightarrow> response" where
  "middle_fails album_id =
     (if album_id = ''b'' then TransportError ''timed out''
      else songs_response [mk_song (album_id @ ''1'')])"

text \<open>The answer of a server that reports a failure of its own.\<close>

definition failed_envelope :: "int \<Rightarrow> string \<Rightarrow> response" where
  "failed_envelope code msg =
     JsonBody (JDict [(''subsonic-response'',
       JDict [(''status'', JStr ''failed''),
              (''error'', JDict [(''code'', JInt code), (''message'', JStr msg)])])])"

definition refusing_env :: env where
  "refusing_env = env_of (fixed_server (failed_envelope 40 ''Wrong username or password''))"

text \<open>A catalog whose only album reports no songs and has one.\<close>

definition undercounted :: "json list" where
  "undercounted = [mk_album ''a'' 0]"

definition one_song_each :: "string \<Rightarrow> response" where
  "one_song_each album_id = songs_response [mk_song (album_id @ ''1'')]"

text \<open>
  A catalog of four albums with two, one, one and two songs, and a cancellation
  predicate that turns true once a given number of songs has been handed out.
\<close>

definition four_albums :: "json list" where
  "four_albums = [mk_album ''a'' 2, mk_album ''b'' 1, mk_album ''c'' 1, mk_album ''d'' 2]"

definition four_songs :: "string \<Rightarrow> response" where
  "four_songs album_id =
     (if album_id = ''a'' then songs_response [mk_song ''a1'', mk_song ''a2'']
      else if album_id = ''b'' then songs_response [mk_song ''b1'']
      else if album_id = ''c'' then songs_response [mk_song ''c1'']
      else songs_response [mk_song ''d1'', mk_song ''d2''])"

definition cancel_after :: "nat \<Rightarrow> event list \<Rightarrow> bool" where
  "cancel_after n tr = (n \<le> length (yielded tr))"

text \<open>
  What one album adds to the total of pass 1: the \<^verbatim>\<open>songCount\<close> it reports, 0 when it
  reports none or one that \<^verbatim>\<open>int\<close> rejects.
\<close>

definition song_count_of :: "env \<Rightarrow> json \<Rightarrow> int" where
  "song_count_of e a =
     (case py_get a ''songCount'' (JInt 0) of
        Inl err \<Rightarrow> 0
      | Inr sc \<Rightarrow> (case py_int e sc of None \<Rightarrow> 0 | Some n \<Rightarrow> n))"

text \<open>Four albums that report 3, 5, 0 and 2 songs.\<close>

definition counted_albums :: "json list" where
  "counted_albums = [mk_album ''a'' 3, mk_album ''b'' 5, mk_album ''c'' 0, mk_album ''d'' 2]"

section \<open>Properties\<close>

subsection \<open>The request executor\<close>

lemma contains_str_head: "contains_str s (c # sub) \<Longrightarrow> c \<in> set s"
proof (induction s)
  case Nil
  then show ?case by simp
next
  case (Cons a s)
  then show ?case by auto
qed

lemma norm_endpoint_slash: "\<exists>rest. norm_endpoint endpoint = CHR ''/'' # rest"
  by (cases endpoint) (auto simp: norm_endpoint_def)

lemma msg_no_slash: "CHR ''/'' \<notin> set missing_envelope_msg"
  by (simp add: missing_envelope_msg_def apostrophe_def)

text \<open>
  Claim C7, as the code has it. When the body parses and the parsed value (a dict, a list
  or a string) does not contain \<^verbatim>\<open>subsonic-response\<close>, \<^verbatim>\<open>_request\<close> raises a
  \<^verbatim>\<open>ValueError\<close> whose message is one fixed text. The text differs from the message of
  every transport failure, of every JSON failure and of every failure reported by the
  server, and the endpoint does not occur in it.
\<close>

theorem missing_envelope_error:
  assumes "server e (net_log w) (build_request e c endpoint params method song_ids (length (net_log w)))
             = JsonBody payload"
    and "py_contains payload ''subsonic-response'' = Inr False"
  shows "fst (priv_request e c endpoint params method song_ids w) = Inl (ValueError missing_envelope_msg)
       \<and> missing_envelope_msg \<noteq> ''HTTP error calling '' @ norm_endpoint endpoint @ '': '' @ exc
       \<and> missing_envelope_msg \<noteq> ''Invalid JSON from '' @ norm_endpoint endpoint @ '': '' @ exc
       \<and> missing_envelope_msg \<noteq> ''Subsonic error '' @ code @ '': '' @ msg
       \<and> \<not> contains_str missing_envelope_msg (norm_endpoint endpoint)"
proof -
  have a: "fst (priv_request e c endpoint params method song_ids w) = Inl (ValueError missing_envelope_msg)"
    using assms by (simp add: priv_request_def Let_def check_envelope_def)
  have b: "\<not> contains_str missing_envelope_msg (norm_endpoint endpoint)"
    using norm_endpoint_slash[of endpoint] contains_str_head msg_no_slash by metis
  show ?thesis using a b by (simp add: missing_envelope_msg_def)
qed

theorem missing_envelope_error_witness:
  "py_contains (JDict [(''status'', JStr ''ok'')]) ''subsonic-response'' = Inr False
   \<and> fst (priv_request (env_of (fixed_server (JsonBody (JDict [(''status'', JStr ''ok'')]))))
            (demo_client False) ''rest/getAlbum.view'' [(''id'', ''42'')] ''GET'' None fresh_world)
       = Inl (ValueError missing_envelope_msg)
   \<and> \<not> contains_str missing_envelope_msg ''/rest/getAlbum.view''"
proof -
  have h1: "server (env_of (fixed_server (JsonBody (JDict [(''status'', JStr ''ok'')])))) (net_log fresh_world)
      (build_request (env_of (fixed_server (JsonBody (JDict [(''status'', JStr ''ok'')])))) (demo_client False)
         ''rest/getAlbum.view'' [(''id'', ''42'')] ''GET'' None (length (net_log fresh_world)))
      = JsonBody (JDict [(''status'', JStr ''ok'')])"
    by (simp add: env_of_def fixed_server_def)
  have h2: "py_contains (JDict [(''status'', JStr ''ok'')]) ''subsonic-response'' = Inr False"
    by (simp add: py_contains_def)
  have n: "norm_endpoint ''rest/getAlbum.view'' = ''/rest/getAlbum.view''"
    by (simp add: norm_endpoint_def)
  show ?thesis
    using missing_envelope_error [OF h1 h2, of "''''" "''''" "''''"] h2 n by simp
qed

text \<open>
  Claim C7 as stated fails: for the endpoint \<^verbatim>\<open>/rest/ping.view\<close> and a JSON object
  without the envelope key, the message of the error names neither the endpoint nor any
  part of it.
\<close>

theorem missing_envelope_counterexample:
  "fst (priv_request (env_of (fixed_server (JsonBody (JDict [(''status'', JStr ''ok'')]))))
            (demo_client False) ''/rest/ping.view'' [] ''GET'' None fresh_world)
       = Inl (ValueError missing_envelope_msg)
   \<and> \<not> contains_str missing_envelope_msg ''/rest/ping.view''
   \<and> \<not> contains_str missing_envelope_msg ''ping''"
  by (simp add: priv_request_def Let_def check_envelope_def py_contains_def env_of_def fixed_server_def
      missing_envelope_msg_def apostrophe_def)

lemma join_with_single:
  "join_with sep (x # ys) = x @ concat (map (\<lambda>y. sep @ y) ys)"
  by (induction ys arbitrary: x) auto

lemma join_with_append:
  "xs \<noteq> [] \<Longrightarrow> join_with sep (xs @ ys) = join_with sep xs @ concat (map (\<lambda>y. sep @ y) ys)"
proof (induction xs)
  case Nil
  then show ?case by simp
next
  case (Cons x xs)
  show ?case by (simp add: join_with_single)
qed

lemma urlencode_append:
  "ps \<noteq> [] \<Longrightarrow> urlencode (ps @ qs) = urlencode ps @ concat (map (\<lambda>kv. ''&'' @ encode_pair kv) qs)"
  by (simp add: urlencode_def join_with_append comp_def)

lemma dict_set_not_Nil: "dict_set d k v \<noteq> []"
  by (cases d) (auto split: if_splits)

lemma dict_merge_not_Nil: "a \<noteq> [] \<Longrightarrow> dict_merge a b \<noteq> []"
  by (induction a b rule: dict_merge.induct) (auto simp: dict_set_not_Nil)

lemma dict_set_fresh: "k \<notin> fst ` set d \<Longrightarrow> dict_set d k v = d @ [(k, v)]"
  by (induction d) auto

lemma dict_merge_disjoint:
  "distinct (map fst b) \<Longrightarrow> fst ` set a \<inter> fst ` set b = {} \<Longrightarrow> dict_merge a b = a @ b"
proof (induction a b rule: dict_merge.induct)
  case (1 a)
  then show ?case by simp
next
  case (2 a k v b)
  have fresh: "k \<notin> fst ` set a" using "2.prems"(2) by auto
  have "dict_merge (a @ [(k, v)]) b = (a @ [(k, v)]) @ b"
    using "2.IH" "2.prems" fresh by (auto simp: dict_set_fresh)
  then show ?case using fresh by (simp add: dict_set_fresh)
qed

lemma quote_plus_songId: "quote_plus ''songId'' = ''songId''"
  by (simp add: quote_plus_def quote_plus_char_def unreserved_def)

lemma auth_params_not_Nil: "priv_auth_params e c n \<noteq> []"
  by (simp add: priv_auth_params_def Let_def)

text \<open>
  Claim C6. A request that is not a GET and has a non-empty list of song ids is logged
  with a body that is the URL-encoding of the merged parameters (the authentication
  parameters updated with the caller's) followed by one \<^verbatim>\<open>&songId=\<close> pair per song id,
  in the order of the list. When the caller's keys are distinct and none of them is an
  authentication key, the merged parameters are the authentication parameters followed
  by the caller's.
\<close>

theorem post_body_song_ids_last:
  assumes "upper method \<noteq> ''GET''" and "song_ids \<noteq> []"
  shows "net_log (snd (priv_request e c endpoint params method (Some song_ids) w))
           = net_log w @ [build_request e c endpoint params method (Some song_ids) (length (net_log w))]
       \<and> req_body (build_request e c endpoint params method (Some song_ids) (length (net_log w)))
           = Some (urlencode (dict_merge (priv_auth_params e c (length (net_log w))) params)
                   @ concat (map (\<lambda>sid. ''&songId='' @ quote_plus sid) song_ids))
       \<and> (distinct (map fst params)
            \<and> fst ` set (priv_auth_params e c (length (net_log w))) \<inter> fst ` set params = {}
          \<longrightarrow> dict_merge (priv_auth_params e c (length (net_log w))) params
                = priv_auth_params e c (length (net_log w)) @ params)"
proof -
  obtain sid sids where ids: "song_ids = sid # sids" using assms(2) by (cases song_ids) auto
  have log: "net_log (snd (priv_request e c endpoint params method (Some song_ids) w))
           = net_log w @ [build_request e c endpoint params method (Some song_ids) (length (net_log w))]"
    by (simp add: priv_request_def Let_def split: response.splits)
  have ne: "dict_merge (priv_auth_params e c (length (net_log w))) params \<noteq> []"
    by (rule dict_merge_not_Nil) (rule auth_params_not_Nil)
  have body: "req_body (build_request e c endpoint params method (Some song_ids) (length (net_log w)))
           = Some (urlencode (dict_merge (priv_auth_params e c (length (net_log w))) params
                     @ song_id_pairs song_ids))"
    using assms(1) ids by (simp add: build_request_def Let_def)
  have enc: "urlencode (dict_merge (priv_auth_params e c (length (net_log w))) params @ song_id_pairs song_ids)
      = urlencode (dict_merge (priv_auth_params e c (length (net_log w))) params)
                   @ concat (map (\<lambda>sid. ''&songId='' @ quote_plus sid) song_ids)"
    using ne by (simp add: urlencode_append song_id_pairs_def comp_def encode_pair_def quote_plus_songId)
  show ?thesis using log body enc by (simp add: dict_merge_disjoint)
qed

theorem post_body_song_ids_last_witness:
  "upper ''post'' \<noteq> ''GET'' \<and> [''s1'', ''s2''] \<noteq> []
   \<and> distinct (map fst [(''name'', ''x y'')])
   \<and> req_body (last (net_log (snd (priv_request (env_of (fixed_server (envelope []))) (demo_client False)
          ''/rest/createPlaylist.view'' [(''name'', ''x y'')] ''post'' (Some [''s1'', ''s2'']) fresh_world))))
     = Some ''u=user&t=0cc175b9c0f1b6a8&s=abcdefghijkl&v=1.16.1&c=PicardNavidrome&f=json&name=x+y&songId=s1&songId=s2''"
proof -
  have h1: "upper ''post'' \<noteq> ''GET''"
    by (simp add: upper_def upper_char_def)
  have h2: "[''s1'', ''s2''] \<noteq> ([] :: string list)"
    by simp
  show ?thesis
    using post_body_song_ids_last [OF h1 h2, of "env_of (fixed_server (envelope []))" "demo_client False"
        "''/rest/createPlaylist.view''" "[(''name'', ''x y'')]" fresh_world] h1
    by (simp add: priv_auth_params_def env_of_def demo_client_def fresh_world_def urlencode_def
        encode_pair_def quote_plus_def quote_plus_char_def unreserved_def HEX_char_def)
qed

subsection \<open>The catalog client\<close>

lemma dec_nat_not_Nil: "dec_nat n \<noteq> []"
  by (subst dec_nat.simps) simp

lemma py_repr_not_Nil: "py_repr v \<noteq> []"
  by (cases v) (auto simp: str_int_def dec_nat_not_Nil repr_str_def Let_def)

lemma py_str_Nil_iff: "py_str v = [] \<longleftrightarrow> v = JStr []"
  by (cases v) (auto simp: py_str_def str_int_def dec_nat_not_Nil)

text \<open>
  Claim C10. When the request of \<^verbatim>\<open>create_playlist\<close> succeeds, the result is \<^verbatim>\<open>None\<close>
  exactly when the response has no \<^verbatim>\<open>playlist\<close> field, or the field is not an object, or
  the object has no \<^verbatim>\<open>id\<close> or its \<^verbatim>\<open>id\<close> is the empty string; for every other id the
  result is \<^verbatim>\<open>str(id)\<close>, which is not empty.
\<close>

theorem create_playlist_id:
  assumes "fst (priv_post e c ''/rest/createPlaylist.view'' [(''name'', name)] (Some song_ids) w) = Inr resp"
  shows "(fst (create_playlist e c name song_ids w) = Inr None)
          = (map_of resp ''playlist'' = None
             \<or> (\<exists>pl. map_of resp ''playlist'' = Some pl \<and> \<not> is_dict pl)
             \<or> (\<exists>kvs. map_of resp ''playlist'' = Some (JDict kvs)
                   \<and> (map_of kvs ''id'' = None \<or> map_of kvs ''id'' = Some (JStr []))))
       \<and> (\<forall>kvs v. map_of resp ''playlist'' = Some (JDict kvs) \<and> map_of kvs ''id'' = Some v \<and> v \<noteq> JStr []
            \<longrightarrow> fst (create_playlist e c name song_ids w) = Inr (Some (py_str v)) \<and> py_str v \<noteq> [])"
proof -
  obtain w' where p: "priv_post e c ''/rest/createPlaylist.view'' [(''name'', name)] (Some song_ids) w = (Inr resp, w')"
    using assms by (cases "priv_post e c ''/rest/createPlaylist.view'' [(''name'', name)] (Some song_ids) w") auto
  show ?thesis
  proof (cases "map_of resp ''playlist''")
    case None
    then show ?thesis using p by (simp add: create_playlist_def dict_get_def Let_def py_str_def)
  next
    case (Some pl)
    show ?thesis
    proof (cases pl)
      case (JDict kvs)
      show ?thesis
      proof (cases "map_of kvs ''id''")
        case None
        then show ?thesis using p Some JDict
          by (simp add: create_playlist_def dict_get_def Let_def py_str_def is_dict_def)
      next
        case (Some v)
        then show ?thesis using p \<open>map_of resp ''playlist'' = Some pl\<close> JDict
          by (auto simp: create_playlist_def dict_get_def Let_def py_str_Nil_iff is_dict_def)
      qed
    qed (use p Some in \<open>auto simp: create_playlist_def dict_get_def Let_def is_dict_def\<close>)
  qed
qed

lemma fixed_envelope_post: "fst (priv_post (env_of (fixed_server (envelope p))) c ep ps ids w) = Inr ((''status'', JStr ''ok'') # p)"
  by (simp add: priv_post_def priv_request_def Let_def env_of_def fixed_server_def envelope_def
      check_envelope_def py_contains_def py_subscript_def dict_get_def)

theorem create_playlist_id_witness:
  "fst (priv_post (env_of (fixed_server (envelope [(''playlist'', JDict [(''id'', JInt 42)])]))) (demo_client False)
      ''/rest/createPlaylist.view'' [(''name'', ''X'')] (Some [''a'', ''b'', ''c'']) fresh_world)
      = Inr [(''status'', JStr ''ok''), (''playlist'', JDict [(''id'', JInt 42)])]
   \<and> fst (create_playlist (env_of (fixed_server (envelope [(''playlist'', JDict [(''id'', JInt 42)])])))
        (demo_client False) ''X'' [''a'', ''b'', ''c''] fresh_world) = Inr (Some ''42'')
   \<and> fst (priv_post (env_of (fixed_server (envelope [(''playlist'', JDict [(''id'', JStr [])])]))) (demo_client False)
      ''/rest/createPlaylist.view'' [(''name'', ''X'')] (Some [''a'', ''b'', ''c'']) fresh_world)
      = Inr [(''status'', JStr ''ok''), (''playlist'', JDict [(''id'', JStr [])])]
   \<and> fst (create_playlist (env_of (fixed_server (envelope [(''playlist'', JDict [(''id'', JStr [])])])))
        (demo_client False) ''X'' [''a'', ''b'', ''c''] fresh_world) = Inr None"
proof -
  have h1: "fst (priv_post (env_of (fixed_server (envelope [(''playlist'', JDict [(''id'', JInt 42)])]))) (demo_client False)
      ''/rest/createPlaylist.view'' [(''name'', ''X'')] (Some [''a'', ''b'', ''c'']) fresh_world)
      = Inr [(''status'', JStr ''ok''), (''playlist'', JDict [(''id'', JInt 42)])]"
    by (rule fixed_envelope_post)
  have h2: "fst (priv_post (env_of (fixed_server (envelope [(''playlist'', JDict [(''id'', JStr [])])]))) (demo_client False)
      ''/rest/createPlaylist.view'' [(''name'', ''X'')] (Some [''a'', ''b'', ''c'']) fresh_world)
      = Inr [(''status'', JStr ''ok''), (''playlist'', JDict [(''id'', JStr [])])]"
    by (rule fixed_envelope_post)
  have s: "py_str (JInt 42) = ''42''"
    by (simp add: py_str_def str_int_def dec_nat.simps digit_char_def)
  show ?thesis
    using create_playlist_id [OF h1] create_playlist_id [OF h2] h1 h2 s by simp
qed

lemma list_field_single:
  "map_of resp outer = Some (JDict fld) \<Longrightarrow> map_of fld inner = Some (JDict d)
    \<Longrightarrow> list_field resp outer inner = Inr (JList [JDict d])"
  by (simp add: list_field_def dict_get_def py_get_def wrap_single_def is_dict_def)

lemma list_field_array:
  "map_of resp outer = Some (JDict fld) \<Longrightarrow> map_of fld inner = Some (JList xs)
    \<Longrightarrow> list_field resp outer inner = Inr (JList xs)"
  by (simp add: list_field_def dict_get_def py_get_def wrap_single_def is_dict_def)

lemma fst_get_playlists:
  "fst (get_playlists e c w) = (case fst (priv_get e c ''/rest/getPlaylists.view'' [] w) of Inl err \<Rightarrow> Inl err | Inr resp \<Rightarrow> list_field resp ''playlists'' ''playlist'')"
  unfolding get_playlists_def
  by (simp split: prod.splits sum.splits)

lemma fst_get_playlist_tracks:
  "fst (get_playlist_tracks e c playlist_id w)
     = (case fst (priv_get e c ''/rest/getPlaylist.view'' [(''id'', playlist_id)] w) of Inl err \<Rightarrow> Inl err | Inr resp \<Rightarrow> list_field resp ''playlist'' ''entry'')"
  unfolding get_playlist_tracks_def
  by (simp split: prod.splits sum.splits)

lemma fst_search_songs:
  "fst (search_songs e c query count offset w)
     = (case fst (priv_get e c ''/rest/search3.view''
             [(''query'', query), (''songCount'', str_int count), (''songOffset'', str_int offset)] w) of Inl err \<Rightarrow> Inl err | Inr resp \<Rightarrow> list_field resp ''searchResult3'' ''song'')"
  unfolding search_songs_def
  by (simp split: prod.splits sum.splits)

lemma fst_get_album_miss:
  "(enable_cache c \<longrightarrow> cache_get w (album_key c album_id) = JNull)
    \<Longrightarrow> fst (get_album e c album_id w)
     = (case fst (priv_get e c ''/rest/getAlbum.view'' [(''id'', album_id)] w) of Inl err \<Rightarrow> Inl err | Inr resp \<Rightarrow> list_field resp ''album'' ''song'')"
  unfolding get_album_def Let_def
  by (auto split: prod.splits sum.splits)

lemma fst_get_album_list2_miss:
  "(enable_cache c \<longrightarrow> cache_get w (album_list2_key c list_type sz offset) = JNull)
    \<Longrightarrow> fst (get_album_list2 e c list_type sz offset w)
     = (case fst (priv_get e c ''/rest/getAlbumList2.view'' (album_list2_params list_type sz offset) w) of Inl err \<Rightarrow> Inl err | Inr resp \<Rightarrow> list_field resp ''albumList2'' ''album'')"
  unfolding get_album_list2_def Let_def
  by (auto split: prod.splits sum.splits)


text \<open>
  Claim C4. For each of the five operations with a list-shaped field (\<^verbatim>\<open>album.song\<close>,
  \<^verbatim>\<open>playlists.playlist\<close>, \<^verbatim>\<open>playlist.entry\<close>, \<^verbatim>\<open>searchResult3.song\<close>,
  \<^verbatim>\<open>albumList2.album\<close>): when the request succeeds and the field of the response is a
  single object, the operation returns the one-element list of that object; when it is
  an array, the operation returns the array. For the two cached operations the response
  is only fetched when the cache has nothing for the key.
\<close>

theorem list_fields_normalized:
  "(fst (priv_get e c ''/rest/getAlbum.view'' [(''id'', album_id)] w) = Inr resp
      \<and> map_of resp ''album'' = Some (JDict fld)
      \<and> (enable_cache c \<longrightarrow> cache_get w (album_key c album_id) = JNull)
    \<longrightarrow> (map_of fld ''song'' = Some (JDict d) \<longrightarrow> fst (get_album e c album_id w) = Inr (JList [JDict d]))
      \<and> (map_of fld ''song'' = Some (JList xs) \<longrightarrow> fst (get_album e c album_id w) = Inr (JList xs)))
   \<and> (fst (priv_get e c ''/rest/getPlaylists.view'' [] w) = Inr resp
      \<and> map_of resp ''playlists'' = Some (JDict fld)
    \<longrightarrow> (map_of fld ''playlist'' = Some (JDict d) \<longrightarrow> fst (get_playlists e c w) = Inr (JList [JDict d]))
      \<and> (map_of fld ''playlist'' = Some (JList xs) \<longrightarrow> fst (get_playlists e c w) = Inr (JList xs)))
   \<and> (fst (priv_get e c ''/rest/getPlaylist.view'' [(''id'', playlist_id)] w) = Inr resp
      \<and> map_of resp ''playlist'' = Some (JDict fld)
    \<longrightarrow> (map_of fld ''entry'' = Some (JDict d)
            \<longrightarrow> fst (get_playlist_tracks e c playlist_id w) = Inr (JList [JDict d]))
      \<and> (map_of fld ''entry'' = Some (JList xs)
            \<longrightarrow> fst (get_playlist_tracks e c playlist_id w) = Inr (JList xs)))
   \<and> (fst (priv_get e c ''/rest/search3.view''
             [(''query'', query), (''songCount'', str_int count), (''songOffset'', str_int offset)] w) = Inr resp
      \<and> map_of resp ''searchResult3'' = Some (JDict fld)
    \<longrightarrow> (map_of fld ''song'' = Some (JDict d)
            \<longrightarrow> fst (search_songs e c query count offset w) = Inr (JList [JDict d]))
      \<and> (map_of fld ''song'' = Some (JList xs)
            \<longrightarrow> fst (search_songs e c query count offset w) = Inr (JList xs)))
   \<and> (fst (priv_get e c ''/rest/getAlbumList2.view'' (album_list2_params list_type sz offset) w) = Inr resp
      \<and> map_of resp ''albumList2'' = Some (JDict fld)
      \<and> (enable_cache c \<longrightarrow> cache_get w (album_list2_key c list_type sz offset) = JNull)
    \<longrightarrow> (map_of fld ''album'' = Some (JDict d)
            \<longrightarrow> fst (get_album_list2 e c list_type sz offset w) = Inr (JList [JDict d]))
      \<and> (map_of fld ''album'' = Some (JList xs)
            \<longrightarrow> fst (get_album_list2 e c list_type sz offset w) = Inr (JList xs)))"
proof (intro conjI impI)
  assume "fst (priv_get e c ''/rest/getAlbum.view'' [(''id'', album_id)] w) = Inr resp
      \<and> map_of resp ''album'' = Some (JDict fld)
      \<and> (enable_cache c \<longrightarrow> cache_get w (album_key c album_id) = JNull)"
  then have h: "fst (get_album e c album_id w) = list_field resp ''album'' ''song''"
    "map_of resp ''album'' = Some (JDict fld)"
    by (simp_all add: fst_get_album_miss)
  show "fst (get_album e c album_id w) = Inr (JList [JDict d])" if "map_of fld ''song'' = Some (JDict d)"
    using h that by (simp add: list_field_single)
  show "fst (get_album e c album_id w) = Inr (JList xs)" if "map_of fld ''song'' = Some (JList xs)"
    using h that by (simp add: list_field_array)
next
  assume "fst (priv_get e c ''/rest/getPlaylists.view'' [] w) = Inr resp
      \<and> map_of resp ''playlists'' = Some (JDict fld)"
  then have h: "fst (get_playlists e c w) = list_field resp ''playlists'' ''playlist''"
    "map_of resp ''playlists'' = Some (JDict fld)"
    by (simp_all add: fst_get_playlists)
  show "fst (get_playlists e c w) = Inr (JList [JDict d])" if "map_of fld ''playlist'' = Some (JDict d)"
    using h that by (simp add: list_field_single)
  show "fst (get_playlists e c w) = Inr (JList xs)" if "map_of fld ''playlist'' = Some (JList xs)"
    using h that by (simp add: list_field_array)
next
  assume "fst (priv_get e c ''/rest/getPlaylist.view'' [(''id'', playlist_id)] w) = Inr resp
      \<and> map_of resp ''playlist'' = Some (JDict fld)"
  then have h: "fst (get_playlist_tracks e c playlist_id w) = list_field resp ''playlist'' ''entry''"
    "map_of resp ''playlist'' = Some (JDict fld)"
    by (simp_all add: fst_get_playlist_tracks)
  show "fst (get_playlist_tracks e c playlist_id w) = Inr (JList [JDict d])"
    if "map_of fld ''entry'' = Some (JDict d)"
    using h that by (simp add: list_field_single)
  show "fst (get_playlist_tracks e c playlist_id w) = Inr (JList xs)"
    if "map_of fld ''entry'' = Some (JList xs)"
    using h that by (simp add: list_field_array)
next
  assume "fst (priv_get e c ''/rest/search3.view''
             [(''query'', query), (''songCount'', str_int count), (''songOffset'', str_int offset)] w) = Inr resp
      \<and> map_of resp ''searchResult3'' = Some (JDict fld)"
  then have h: "fst (search_songs e c query count offset w) = list_field resp ''searchResult3'' ''song''"
    "map_of resp ''searchResult3'' = Some (JDict fld)"
    by (simp_all add: fst_search_songs)
  show "fst (search_songs e c query count offset w) = Inr (JList [JDict d])"
    if "map_of fld ''song'' = Some (JDict d)"
    using h that by (simp add: list_field_single)
  show "fst (search_songs e c query count offset w) = Inr (JList xs)"
    if "map_of fld ''song'' = Some (JList xs)"
    using h that by (simp add: list_field_array)
next
  assume "fst (priv_get e c ''/rest/getAlbumList2.view'' (album_list2_params list_type sz offset) w) = Inr resp
      \<and> map_of resp ''albumList2'' = Some (JDict fld)
      \<and> (enable_cache c \<longrightarrow> cache_get w (album_list2_key c list_type sz offset) = JNull)"
  then have h: "fst (get_album_list2 e c list_type sz offset w) = list_field resp ''albumList2'' ''album''"
    "map_of resp ''albumList2'' = Some (JDict fld)"
    by (simp_all add: fst_get_album_list2_miss)
  show "fst (get_album_list2 e c list_type sz offset w) = Inr (JList [JDict d])"
    if "map_of fld ''album'' = Some (JDict d)"
    using h that by (simp add: list_field_single)
  show "fst (get_album_list2 e c list_type sz offset w) = Inr (JList xs)"
    if "map_of fld ''album'' = Some (JList xs)"
    using h that by (simp add: list_field_array)
qed


lemma fixed_envelope_get:
  "fst (priv_get (env_of (fixed_server (envelope p))) c ep ps w) = Inr ((''status'', JStr ''ok'') # p)"
  by (simp add: priv_get_def priv_request_def Let_def env_of_def fixed_server_def envelope_def
      check_envelope_def py_contains_def py_subscript_def dict_get_def)

lemma shaped_env_get:
  "fst (priv_get (shaped_env x) c ep ps w) = Inr ((''status'', JStr ''ok'') # shaped_payload x)"
  by (simp add: shaped_env_def fixed_envelope_get)

theorem list_fields_normalized_witness:
  "fst (priv_get (shaped_env (mk_song ''s1'')) (demo_client True) ''/rest/getAlbum.view'' [(''id'', ''42'')] cached_world)
     = Inr ((''status'', JStr ''ok'') # shaped_payload (mk_song ''s1''))
   \<and> cache_get cached_world (album_key (demo_client True) ''42'') = JNull
   \<and> fst (get_album (shaped_env (mk_song ''s1'')) (demo_client True) ''42'' cached_world) = Inr (JList [mk_song ''s1''])
   \<and> fst (get_playlists (shaped_env (mk_song ''s1'')) (demo_client True) cached_world) = Inr (JList [mk_song ''s1''])
   \<and> fst (get_playlist_tracks (shaped_env (mk_song ''s1'')) (demo_client True) ''7'' cached_world)
       = Inr (JList [mk_song ''s1''])
   \<and> fst (search_songs (shaped_env (mk_song ''s1'')) (demo_client True) ''abba'' 10 0 cached_world)
       = Inr (JList [mk_song ''s1''])
   \<and> fst (get_album_list2 (shaped_env (mk_song ''s1'')) (demo_client True) ''newest'' 500 0 cached_world)
       = Inr (JList [mk_song ''s1''])
   \<and> fst (get_album (shaped_env (JList [mk_song ''s1'', mk_song ''s2''])) (demo_client True) ''42'' cached_world)
       = Inr (JList [mk_song ''s1'', mk_song ''s2''])
   \<and> fst (get_playlists (shaped_env (JList [mk_song ''s1'', mk_song ''s2''])) (demo_client True) cached_world)
       = Inr (JList [mk_song ''s1'', mk_song ''s2''])
   \<and> fst (get_playlist_tracks (shaped_env (JList [mk_song ''s1'', mk_song ''s2''])) (demo_client True) ''7'' cached_world)
       = Inr (JList [mk_song ''s1'', mk_song ''s2''])
   \<and> fst (search_songs (shaped_env (JList [mk_song ''s1'', mk_song ''s2''])) (demo_client True) ''abba'' 10 0 cached_world)
       = Inr (JList [mk_song ''s1'', mk_song ''s2''])
   \<and> fst (get_album_list2 (shaped_env (JList [mk_song ''s1'', mk_song ''s2''])) (demo_client True) ''newest'' 500 0
            cached_world)
       = Inr (JList [mk_song ''s1'', mk_song ''s2''])"
proof -
  have miss: "cache_get cached_world k = JNull" for k
    by (simp add: cache_get_def cached_world_def)
  have one: "mk_song ''s1'' = JDict [(''id'', JStr ''s1'')]"
    by (simp add: mk_song_def)
  note single = list_fields_normalized [where e = "shaped_env (mk_song ''s1'')" and c = "demo_client True"
      and w = cached_world and resp = "(''status'', JStr ''ok'') # shaped_payload (mk_song ''s1'')"
      and fld = "[(''song'', mk_song ''s1''), (''playlist'', mk_song ''s1''), (''entry'', mk_song ''s1''),
                  (''album'', mk_song ''s1'')]"
      and d = "[(''id'', JStr ''s1'')]" and xs = "[]"
      and album_id = "''42''" and playlist_id = "''7''" and query = "''abba''" and count = 10
      and offset = 0 and list_type = "''newest''" and sz = 500]
  note array = list_fields_normalized [where e = "shaped_env (JList [mk_song ''s1'', mk_song ''s2''])"
      and c = "demo_client True" and w = cached_world
      and resp = "(''status'', JStr ''ok'') # shaped_payload (JList [mk_song ''s1'', mk_song ''s2''])"
      and fld = "[(''song'', JList [mk_song ''s1'', mk_song ''s2'']), (''playlist'', JList [mk_song ''s1'', mk_song ''s2'']),
                  (''entry'', JList [mk_song ''s1'', mk_song ''s2'']), (''album'', JList [mk_song ''s1'', mk_song ''s2''])]"
      and d = "[]" and xs = "[mk_song ''s1'', mk_song ''s2'']"
      and album_id = "''42''" and playlist_id = "''7''" and query = "''abba''" and count = 10
      and offset = 0 and list_type = "''newest''" and sz = 500]
  show ?thesis
    using single array
    by (simp add: shaped_env_get miss one shaped_payload_def shaped_fields_def)
qed

subsection \<open>The cache\<close>

lemma cache_get_set: "cache_get (cache_set key data w) key = data"
  by (simp add: cache_get_def cache_set_def split: option.splits)

lemma net_log_cache_set: "net_log (cache_set key data w) = net_log w"
  by (simp add: cache_set_def split: option.splits)

lemma cache_get_clear: "cache_get (clear_cache c w) key = JNull"
  by (simp add: cache_get_def clear_cache_def clear_global_cache_def split: option.splits)

lemma net_log_clear: "net_log (clear_cache c w) = net_log w"
  by (simp add: clear_cache_def clear_global_cache_def split: option.splits)

lemma net_log_priv_request:
  "net_log (snd (priv_request e c endpoint params method song_ids w))
     = net_log w @ [build_request e c endpoint params method song_ids (length (net_log w))]"
  by (simp add: priv_request_def Let_def split: response.splits)

lemma net_log_priv_get:
  "net_log (snd (priv_get e c endpoint params w))
     = net_log w @ [build_request e c endpoint params ''GET'' None (length (net_log w))]"
  by (simp add: priv_get_def net_log_priv_request)

lemma net_log_get_album_list2_miss:
  "cache_get w (album_list2_key c list_type sz offset) = JNull
    \<Longrightarrow> net_log (snd (get_album_list2 e c list_type sz offset w))
      = net_log (snd (priv_get e c ''/rest/getAlbumList2.view'' (album_list2_params list_type sz offset) w))"
  unfolding get_album_list2_def Let_def
  by (auto simp: net_log_cache_set split: prod.splits sum.splits)

lemma net_log_get_album_miss:
  "cache_get w (album_key c album_id) = JNull
    \<Longrightarrow> net_log (snd (get_album e c album_id w))
      = net_log (snd (priv_get e c ''/rest/getAlbum.view'' [(''id'', album_id)] w))"
  unfolding get_album_def Let_def
  by (auto simp: net_log_cache_set split: prod.splits sum.splits)

text \<open>
  Claim C9. After \<^verbatim>\<open>clear_cache\<close> (called on any client) no key is cached, and the next
  call of \<^verbatim>\<open>get_album_list2\<close> or of \<^verbatim>\<open>get_album\<close>, for any arguments and on any client,
  hands exactly one new request to the network.
\<close>

theorem clear_cache_forces_request:
  "cache_get (clear_cache c' w) key = JNull
   \<and> net_log (snd (get_album_list2 e c list_type sz offset (clear_cache c' w)))
     = net_log w @ [build_request e c ''/rest/getAlbumList2.view'' (album_list2_params list_type sz offset)
                      ''GET'' None (length (net_log w))]
   \<and> net_log (snd (get_album e c album_id (clear_cache c' w)))
     = net_log w @ [build_request e c ''/rest/getAlbum.view'' [(''id'', album_id)]
                      ''GET'' None (length (net_log w))]"
  by (simp add: net_log_get_album_list2_miss net_log_get_album_miss cache_get_clear net_log_priv_get
      net_log_clear)

lemma get_album_list2_cases:
  assumes "get_album_list2 e c list_type sz offset w = (Inr v, w1)" and "enable_cache c"
  shows "cache_get w1 (album_list2_key c list_type sz offset) = v"
proof (cases "cache_get w (album_list2_key c list_type sz offset) \<noteq> JNull")
  case True
  then show ?thesis using assms by (auto simp: get_album_list2_def Let_def)
next
  case False
  then show ?thesis using assms
    by (auto simp: get_album_list2_def Let_def cache_get_set split: prod.splits sum.splits)
qed

theorem clear_cache_forces_request_witness:
  "length (net_log (snd (get_album_list2 (shaped_env (JList [mk_album ''a'' 1])) (demo_client True)
      ''newest'' 500 0 cached_world))) = 1
   \<and> length (net_log (snd (get_album_list2 (shaped_env (JList [mk_album ''a'' 1])) (demo_client True)
      ''newest'' 500 0
      (snd (get_album_list2 (shaped_env (JList [mk_album ''a'' 1])) (demo_client True)
         ''newest'' 500 0 cached_world))))) = 1
   \<and> length (net_log (snd (get_album_list2 (shaped_env (JList [mk_album ''a'' 1])) (demo_client True)
      ''newest'' 500 0
      (clear_cache (demo_client True)
         (snd (get_album_list2 (shaped_env (JList [mk_album ''a'' 1])) (demo_client True)
            ''newest'' 500 0 cached_world)))))) = 2"
proof -
  let ?e = "shaped_env (JList [mk_album ''a'' 1])" and ?c = "demo_client True"
  let ?w1 = "snd (get_album_list2 ?e ?c ''newest'' 500 0 cached_world)"
  have c: "enable_cache ?c" by (simp add: demo_client_def)
  have m0: "cache_get cached_world k = JNull" for k
    by (simp add: cache_get_def cached_world_def)
  have l0: "net_log cached_world = []" by (simp add: cached_world_def)
  have l1: "length (net_log ?w1) = 1"
    by (simp add: net_log_get_album_list2_miss m0 net_log_priv_get l0)
  have f: "fst (get_album_list2 ?e ?c ''newest'' 500 0 cached_world) = Inr (JList [mk_album ''a'' 1])"
    by (simp add: fst_get_album_list2_miss m0 shaped_env_get shaped_payload_def shaped_fields_def
        list_field_def dict_get_def py_get_def wrap_single_def is_dict_def)
  then have first: "get_album_list2 ?e ?c ''newest'' 500 0 cached_world = (Inr (JList [mk_album ''a'' 1]), ?w1)"
    by (simp add: prod_eq_iff)
  have hit: "cache_get ?w1 (album_list2_key ?c ''newest'' 500 0) = JList [mk_album ''a'' 1]"
    using first c by (rule get_album_list2_cases)
  have l2: "length (net_log (snd (get_album_list2 ?e ?c ''newest'' 500 0 ?w1))) = 1"
    using hit c l1 by (simp add: get_album_list2_def Let_def)
  have l3: "length (net_log (snd (get_album_list2 ?e ?c ''newest'' 500 0 (clear_cache ?c ?w1)))) = 2"
    using clear_cache_forces_request [of ?c ?w1 "''k''" ?e ?c "''newest''" 500 0 "''x''"] l1
    by simp
  show ?thesis using l1 l2 l3 by simp
qed

text \<open>
  Claim C1, as the code has it. Two clients with caching and the same base URL; the
  first call of \<^verbatim>\<open>get_album_list2\<close> returns a value other than \<^verbatim>\<open>None\<close>. Then the second
  call with the same list type, size and offset returns the same value and leaves the
  state as it was: no request is made.
\<close>

theorem album_list2_second_call_cached:
  assumes "enable_cache c1" and "enable_cache c2" and "base_url c1 = base_url c2"
    and "get_album_list2 e c1 list_type sz offset w = (Inr v, w1)" and "v \<noteq> JNull"
  shows "get_album_list2 e c2 list_type sz offset w1 = (Inr v, w1)
       \<and> net_log (snd (get_album_list2 e c2 list_type sz offset w1)) = net_log w1"
proof -
  have key: "album_list2_key c2 list_type sz offset = album_list2_key c1 list_type sz offset"
    using assms(3) by (simp add: album_list2_key_def)
  have "cache_get w1 (album_list2_key c1 list_type sz offset) = v"
    using assms(4,1) by (rule get_album_list2_cases)
  then show ?thesis using assms(2,5) key by (simp add: get_album_list2_def Let_def)
qed

text \<open>
  Claim C1 as stated fails when the first call returns \<^verbatim>\<open>None\<close>: the cache treats a
  stored \<^verbatim>\<open>None\<close> as a miss. The first answer of the server has \<^verbatim>\<open>null\<close> for the albums;
  the second call makes a second request and returns what the server says then.
\<close>

theorem album_list2_second_call_counterexample:
  "fst (get_album_list2 (env_of null_first_server) (demo_client True) ''alphabeticalByName'' 500 0 cached_world)
     = Inr JNull
   \<and> length (net_log (snd (get_album_list2 (env_of null_first_server) (demo_client True)
        ''alphabeticalByName'' 500 0 cached_world))) = 1
   \<and> fst (get_album_list2 (env_of null_first_server) (demo_client True) ''alphabeticalByName'' 500 0
        (snd (get_album_list2 (env_of null_first_server) (demo_client True) ''alphabeticalByName'' 500 0
           cached_world)))
     = Inr (JList [mk_album ''a'' 1])
   \<and> length (net_log (snd (get_album_list2 (env_of null_first_server) (demo_client True)
        ''alphabeticalByName'' 500 0
        (snd (get_album_list2 (env_of null_first_server) (demo_client True) ''alphabeticalByName'' 500 0
           cached_world))))) = 2"
proof -
  let ?e = "env_of null_first_server" and ?c = "demo_client True"
  let ?k = "album_list2_key ?c ''alphabeticalByName'' 500 0"
  let ?req = "build_request ?e ?c ''/rest/getAlbumList2.view'' (album_list2_params ''alphabeticalByName'' 500 0)
                ''GET'' None 0"
  have c: "enable_cache ?c" by (simp add: demo_client_def)
  have m0: "cache_get cached_world k = JNull" for k
    by (simp add: cache_get_def cached_world_def)
  have p1: "priv_get ?e ?c ''/rest/getAlbumList2.view'' (album_list2_params ''alphabeticalByName'' 500 0) cached_world
      = (Inr [(''status'', JStr ''ok''), (''albumList2'', JDict [(''album'', JNull)])],
         cached_world\<lparr>net_log := [?req]\<rparr>)"
    by (simp add: priv_get_def priv_request_def Let_def env_of_def null_first_server_def cached_world_def
        envelope_def check_envelope_def py_contains_def py_subscript_def dict_get_def)
  have first: "get_album_list2 ?e ?c ''alphabeticalByName'' 500 0 cached_world
      = (Inr JNull, cache_set ?k JNull (cached_world\<lparr>net_log := [?req]\<rparr>))"
    using c by (simp add: get_album_list2_def Let_def m0 p1 list_field_def dict_get_def py_get_def
        wrap_single_def is_dict_def)
  let ?w1 = "cache_set ?k JNull (cached_world\<lparr>net_log := [?req]\<rparr>)"
  have m1: "cache_get ?w1 ?k = JNull" by (simp add: cache_get_set)
  have l1: "net_log ?w1 = [?req]" by (simp add: net_log_cache_set)
  have p2: "fst (priv_get ?e ?c ''/rest/getAlbumList2.view'' (album_list2_params ''alphabeticalByName'' 500 0) ?w1)
      = Inr [(''status'', JStr ''ok''), (''albumList2'', JDict [(''album'', JList [mk_album ''a'' 1])])]"
    by (simp add: priv_get_def priv_request_def Let_def env_of_def null_first_server_def net_log_cache_set
        envelope_def check_envelope_def py_contains_def py_subscript_def dict_get_def)
  have second: "fst (get_album_list2 ?e ?c ''alphabeticalByName'' 500 0 ?w1) = Inr (JList [mk_album ''a'' 1])"
    using p2 by (simp add: fst_get_album_list2_miss m1 list_field_def dict_get_def py_get_def
        wrap_single_def is_dict_def)
  have n2: "length (net_log (snd (get_album_list2 ?e ?c ''alphabeticalByName'' 500 0 ?w1))) = 2"
    by (simp add: net_log_get_album_list2_miss m1 net_log_priv_get l1)
  show ?thesis
    using first second n2 by (simp add: net_log_cache_set)
qed


theorem album_list2_second_call_cached_witness:
  "enable_cache (demo_client True) \<and> enable_cache ((demo_client True)\<lparr>username := ''guest''\<rparr>)
   \<and> base_url (demo_client True) = base_url ((demo_client True)\<lparr>username := ''guest''\<rparr>)
   \<and> fst (get_album_list2 (shaped_env (JList [mk_album ''a'' 1])) (demo_client True) ''newest'' 500 0 cached_world)
       = Inr (JList [mk_album ''a'' 1])
   \<and> fst (get_album_list2 (shaped_env (JList [mk_album ''a'' 1])) ((demo_client True)\<lparr>username := ''guest''\<rparr>)
          ''newest'' 500 0
          (snd (get_album_list2 (shaped_env (JList [mk_album ''a'' 1])) (demo_client True) ''newest'' 500 0
             cached_world)))
       = Inr (JList [mk_album ''a'' 1])
   \<and> length (net_log (snd (get_album_list2 (shaped_env (JList [mk_album ''a'' 1]))
          ((demo_client True)\<lparr>username := ''guest''\<rparr>) ''newest'' 500 0
          (snd (get_album_list2 (shaped_env (JList [mk_album ''a'' 1])) (demo_client True) ''newest'' 500 0
             cached_world))))) = 1"
proof -
  let ?e = "shaped_env (JList [mk_album ''a'' 1])" and ?c1 = "demo_client True"
  let ?c2 = "(demo_client True)\<lparr>username := ''guest''\<rparr>"
  let ?w1 = "snd (get_album_list2 ?e ?c1 ''newest'' 500 0 cached_world)"
  have c1: "enable_cache ?c1" and c2: "enable_cache ?c2" and b: "base_url ?c1 = base_url ?c2"
    by (simp_all add: demo_client_def)
  have m0: "cache_get cached_world k = JNull" for k
    by (simp add: cache_get_def cached_world_def)
  have f: "fst (get_album_list2 ?e ?c1 ''newest'' 500 0 cached_world) = Inr (JList [mk_album ''a'' 1])"
    by (simp add: fst_get_album_list2_miss m0 shaped_env_get shaped_payload_def shaped_fields_def
        list_field_def dict_get_def py_get_def wrap_single_def is_dict_def)
  have first: "get_album_list2 ?e ?c1 ''newest'' 500 0 cached_world = (Inr (JList [mk_album ''a'' 1]), ?w1)"
    using f by (simp add: prod_eq_iff)
  have l0: "net_log cached_world = []"
    by (simp add: cached_world_def)
  have l1: "length (net_log ?w1) = 1"
    by (simp add: net_log_get_album_list2_miss m0 net_log_priv_get l0)
  have v: "JList [mk_album ''a'' 1] \<noteq> JNull" by simp
  show ?thesis
    using album_list2_second_call_cached [OF c1 c2 b first v] c1 c2 b f l1 by simp
qed

subsection \<open>Failures\<close>

lemma propagate_case:
  "fst p = Inl err \<Longrightarrow>
     (case p of (Inl err, w') \<Rightarrow> (Inl err, w') | (Inr resp, w') \<Rightarrow> f resp w') = (Inl err, snd p)"
  by (cases p) auto

lemma ping_propagates:
  "fst (priv_get e c ''/rest/ping.view'' [] w) = Inl err
    \<Longrightarrow> ping e c w = (Inl err, snd (priv_get e c ''/rest/ping.view'' [] w))"
  unfolding ping_def by (rule propagate_case)

lemma get_playlists_propagates:
  "fst (priv_get e c ''/rest/getPlaylists.view'' [] w) = Inl err
    \<Longrightarrow> get_playlists e c w = (Inl err, snd (priv_get e c ''/rest/getPlaylists.view'' [] w))"
  unfolding get_playlists_def by (rule propagate_case)

lemma get_playlist_tracks_propagates:
  "fst (priv_get e c ''/rest/getPlaylist.view'' [(''id'', playlist_id)] w) = Inl err
    \<Longrightarrow> get_playlist_tracks e c playlist_id w
        = (Inl err, snd (priv_get e c ''/rest/getPlaylist.view'' [(''id'', playlist_id)] w))"
  unfolding get_playlist_tracks_def by (rule propagate_case)

lemma create_playlist_propagates:
  "fst (priv_post e c ''/rest/createPlaylist.view'' [(''name'', name)] (Some song_ids) w) = Inl err
    \<Longrightarrow> create_playlist e c name song_ids w
        = (Inl err, snd (priv_post e c ''/rest/createPlaylist.view'' [(''name'', name)] (Some song_ids) w))"
  unfolding create_playlist_def by (rule propagate_case)

lemma update_playlist_propagates:
  "fst (priv_post e c ''/rest/updatePlaylist.view''
         ([(''playlistId'', playlist_id)]
            @ (case name of None \<Rightarrow> [] | Some n \<Rightarrow> [(''name'', n)])
            @ (case public of None \<Rightarrow> [] | Some b \<Rightarrow> [(''public'', if b then ''true'' else ''false'')]))
         None w) = Inl err
    \<Longrightarrow> update_playlist e c playlist_id name public w
        = (Inl err, snd (priv_post e c ''/rest/updatePlaylist.view''
         ([(''playlistId'', playlist_id)]
            @ (case name of None \<Rightarrow> [] | Some n \<Rightarrow> [(''name'', n)])
            @ (case public of None \<Rightarrow> [] | Some b \<Rightarrow> [(''public'', if b then ''true'' else ''false'')]))
         None w))"
  unfolding update_playlist_def Let_def by (rule propagate_case)

lemma delete_playlist_propagates:
  "fst (priv_post e c ''/rest/deletePlaylist.view'' [(''id'', playlist_id)] None w) = Inl err
    \<Longrightarrow> delete_playlist e c playlist_id w
        = (Inl err, snd (priv_post e c ''/rest/deletePlaylist.view'' [(''id'', playlist_id)] None w))"
  unfolding delete_playlist_def by (rule propagate_case)

lemma search_songs_propagates:
  "fst (priv_get e c ''/rest/search3.view''
         [(''query'', query), (''songCount'', str_int count), (''songOffset'', str_int offset)] w) = Inl err
    \<Longrightarrow> search_songs e c query count offset w
        = (Inl err, snd (priv_get e c ''/rest/search3.view''
         [(''query'', query), (''songCount'', str_int count), (''songOffset'', str_int offset)] w))"
  unfolding search_songs_def by (rule propagate_case)

lemma get_album_list2_propagates:
  "(enable_cache c \<longrightarrow> cache_get w (album_list2_key c list_type sz offset) = JNull)
    \<Longrightarrow> fst (priv_get e c ''/rest/getAlbumList2.view'' (album_list2_params list_type sz offset) w) = Inl err
    \<Longrightarrow> get_album_list2 e c list_type sz offset w
        = (Inl err, snd (priv_get e c ''/rest/getAlbumList2.view'' (album_list2_params list_type sz offset) w))"
  unfolding get_album_list2_def Let_def
  by (cases "priv_get e c ''/rest/getAlbumList2.view'' (album_list2_params list_type sz offset) w") auto

lemma get_album_propagates:
  "(enable_cache c \<longrightarrow> cache_get w (album_key c album_id) = JNull)
    \<Longrightarrow> fst (priv_get e c ''/rest/getAlbum.view'' [(''id'', album_id)] w) = Inl err
    \<Longrightarrow> get_album e c album_id w
        = (Inl err, snd (priv_get e c ''/rest/getAlbum.view'' [(''id'', album_id)] w))"
  unfolding get_album_def Let_def
  by (cases "priv_get e c ''/rest/getAlbum.view'' [(''id'', album_id)] w") auto

lemma pass2_skips_failed_album:
  "poll cancel_flag tr = (False, tr') \<Longrightarrow> py_get a ''id'' (JStr []) = Inr id_value
    \<Longrightarrow> py_str id_value \<noteq> [] \<Longrightarrow> get_album e c (py_str id_value) w = (Inl err, w')
    \<Longrightarrow> pass2 e c cancel_flag progress_cb total_songs (a # rest) fetched w tr
        = pass2 e c cancel_flag progress_cb total_songs rest fetched w' tr'"
  by (simp add: py_iter_def)


lemma upper_GET: "upper ''GET'' = ''GET''"
  by (simp add: upper_def upper_char_def)

lemma req_endpoint_build:
  "req_endpoint (build_request e c endpoint params method song_ids n) = norm_endpoint endpoint"
  by (simp add: build_request_def Let_def)

lemma fst_priv_get:
  "fst (priv_get e c endpoint params w) =
     (case server e (net_log w) (build_request e c endpoint params ''GET'' None (length (net_log w))) of
        TransportError exc \<Rightarrow> Inl (ValueError (''HTTP error calling '' @ norm_endpoint endpoint @ '': '' @ exc))
      | InvalidJson exc \<Rightarrow> Inl (ValueError (''Invalid JSON from '' @ norm_endpoint endpoint @ '': '' @ exc))
      | JsonBody payload \<Rightarrow> check_envelope payload)"
  by (simp add: priv_get_def priv_request_def Let_def req_endpoint_build split: response.splits)

lemma check_envelope_ok:
  "check_envelope (JDict [(''subsonic-response'', JDict ((''status'', JStr ''ok'') # p))])
     = Inr ((''status'', JStr ''ok'') # p)"
  by (simp add: check_envelope_def py_contains_def py_subscript_def dict_get_def)

lemma library_album_request:
  "server (env_of (library_server catalog songs_of)) history
     (build_request (env_of (library_server catalog songs_of)) c ''/rest/getAlbum.view''
        [(''id'', album_id)] ''GET'' None n) = songs_of album_id"
  by (simp add: build_request_def Let_def upper_GET norm_endpoint_def env_of_def library_server_def
      priv_auth_params_def)

lemma library_page_request:
  "server (env_of (library_server catalog songs_of)) history
     (build_request (env_of (library_server catalog songs_of)) c ''/rest/getAlbumList2.view''
        (album_list2_params list_type sz offset) ''GET'' None n)
   = envelope [(''albumList2'',
       JDict [(''album'', JList (take (nat_of_dec (str_int sz)) (drop (nat_of_dec (str_int offset)) catalog)))])]"
  by (simp add: build_request_def Let_def upper_GET norm_endpoint_def env_of_def library_server_def
      priv_auth_params_def album_list2_params_def)

lemma library_get_album_ok:
  "\<not> enable_cache c \<Longrightarrow> songs_of album_id = songs_response songs
    \<Longrightarrow> fst (get_album (env_of (library_server catalog songs_of)) c album_id w) = Inr (JList songs)"
  by (simp add: fst_get_album_miss fst_priv_get library_album_request songs_response_def envelope_def
      check_envelope_ok list_field_def dict_get_def py_get_def wrap_single_def is_dict_def)

lemma library_get_album_fail:
  "\<not> enable_cache c \<Longrightarrow> songs_of album_id = TransportError exc
    \<Longrightarrow> fst (get_album (env_of (library_server catalog songs_of)) c album_id w)
        = Inl (ValueError (''HTTP error calling /rest/getAlbum.view: '' @ exc))"
  by (simp add: fst_get_album_miss fst_priv_get library_album_request norm_endpoint_def)

lemma py_get_error: "py_get x k dflt = Inl err \<Longrightarrow> err = AttributeError"
  by (cases x) (simp_all add: py_get_def)

lemma py_iter_error: "py_iter v = Inl err \<Longrightarrow> err = TypeError"
  by (cases v) (simp_all add: py_iter_def)

lemma pass2_raises:
  "pass2 e c cancel_flag progress_cb total_songs albums fetched w tr = (P2Raise err, w', tr')
    \<Longrightarrow> err = TypeError \<or> err = AttributeError"
proof (induction albums arbitrary: fetched w tr)
  case Nil
  then show ?case by simp
next
  case (Cons a rest)
  obtain b tr1 where p: "poll cancel_flag tr = (b, tr1)" by (cases "poll cancel_flag tr")
  show ?case
  proof (cases b)
    case True
    then show ?thesis using Cons.prems p by simp
  next
    case nb: False
    show ?thesis
    proof (cases "py_get a ''id'' (JStr [])")
      case (Inl x)
      then have "x = err" using Cons.prems p nb by simp
      then show ?thesis using py_get_error [OF Inl] by simp
    next
      case (Inr id_value)
      show ?thesis
      proof (cases "py_str id_value = []")
        case True
        then have "pass2 e c cancel_flag progress_cb total_songs rest fetched w tr1 = (P2Raise err, w', tr')"
          using Cons.prems p nb Inr by simp
        then show ?thesis by (rule Cons.IH)
      next
        case ne: False
        obtain r w1 where g: "get_album e c (py_str id_value) w = (r, w1)"
          by (cases "get_album e c (py_str id_value) w")
        show ?thesis
        proof (cases "py_iter (case r of Inl err \<Rightarrow> JList [] | Inr songs \<Rightarrow> songs)")
          case (Inl x)
          then have "x = err" using Cons.prems p nb Inr ne g by simp
          then show ?thesis using py_iter_error [OF Inl] by simp
        next
          case items: (Inr items)
          obtain st f2 tr2 where sl: "song_loop cancel_flag progress_cb total_songs items fetched tr1 = (st, f2, tr2)"
            by (cases "song_loop cancel_flag progress_cb total_songs items fetched tr1") auto
          show ?thesis
          proof (cases st)
            case True
            then show ?thesis using Cons.prems p nb Inr ne g items sl by simp
          next
            case False
            then have "pass2 e c cancel_flag progress_cb total_songs rest f2 w1 tr2 = (P2Raise err, w', tr')"
              using Cons.prems p nb Inr ne g items sl by simp
            then show ?thesis by (rule Cons.IH)
          qed
        qed
      qed
    qed
  qed
qed

lemma pass2_raises_fst:
  "fst (pass2 e c cancel_flag progress_cb total_songs albums fetched w tr) = P2Raise err
    \<Longrightarrow> err = TypeError \<or> err = AttributeError"
  using pass2_raises [of e c cancel_flag progress_cb total_songs albums fetched w tr err]
  by (cases "pass2 e c cancel_flag progress_cb total_songs albums fetched w tr") simp

text \<open>
  Claim C8. In pass 2, an album whose \<^verbatim>\<open>get_album\<close> call raises, whatever the error, is
  passed over: the loop goes on with the remaining albums from the state the failed call
  left, with the same count of fetched songs and no event but the poll, so nothing is
  yielded for it and no error leaves the generator. Whatever the albums, pass 2 never
  ends with a \<^verbatim>\<open>ValueError\<close>, the error of every failed request: the only errors that
  leave it come from a song list that cannot be iterated or an album that is not an
  object. Every other operation of the client
  returns the error of its request as it is: \<^verbatim>\<open>ping\<close>, \<^verbatim>\<open>get_playlists\<close>,
  \<^verbatim>\<open>get_playlist_tracks\<close>, \<^verbatim>\<open>create_playlist\<close>, \<^verbatim>\<open>update_playlist\<close>, \<^verbatim>\<open>delete_playlist\<close>,
  \<^verbatim>\<open>search_songs\<close>, and \<^verbatim>\<open>get_album_list2\<close> and \<^verbatim>\<open>get_album\<close> when they go to the server.
\<close>

theorem album_failure_skipped:
  "(poll cancel_flag tr = (False, tr') \<and> py_get a ''id'' (JStr []) = Inr id_value
      \<and> py_str id_value \<noteq> [] \<and> get_album e c (py_str id_value) w = (Inl err, w')
    \<longrightarrow> pass2 e c cancel_flag progress_cb total_songs (a # rest) fetched w tr
        = pass2 e c cancel_flag progress_cb total_songs rest fetched w' tr')
   \<and> (fst (pass2 e c cancel_flag progress_cb total_songs albums fetched w tr) = P2Raise raised
    \<longrightarrow> raised = TypeError \<or> raised = AttributeError)
   \<and> (fst (priv_get e c ''/rest/ping.view'' [] w) = Inl err
    \<longrightarrow> ping e c w = (Inl err, snd (priv_get e c ''/rest/ping.view'' [] w)))
   \<and> (fst (priv_get e c ''/rest/getPlaylists.view'' [] w) = Inl err
    \<longrightarrow> get_playlists e c w = (Inl err, snd (priv_get e c ''/rest/getPlaylists.view'' [] w)))
   \<and> (fst (priv_get e c ''/rest/getPlaylist.view'' [(''id'', playlist_id)] w) = Inl err
    \<longrightarrow> get_playlist_tracks e c playlist_id w
        = (Inl err, snd (priv_get e c ''/rest/getPlaylist.view'' [(''id'', playlist_id)] w)))
   \<and> (fst (priv_post e c ''/rest/createPlaylist.view'' [(''name'', name)] (Some song_ids) w) = Inl err
    \<longrightarrow> create_playlist e c name song_ids w
        = (Inl err, snd (priv_post e c ''/rest/createPlaylist.view'' [(''name'', name)] (Some song_ids) w)))
   \<and> (fst (priv_post e c ''/rest/updatePlaylist.view''
         ([(''playlistId'', playlist_id)]
            @ (case new_name of None \<Rightarrow> [] | Some n \<Rightarrow> [(''name'', n)])
            @ (case public of None \<Rightarrow> [] | Some b \<Rightarrow> [(''public'', if b then ''true'' else ''false'')]))
         None w) = Inl err
    \<longrightarrow> fst (update_playlist e c playlist_id new_name public w) = Inl err)
   \<and> (fst (priv_post e c ''/rest/deletePlaylist.view'' [(''id'', playlist_id)] None w) = Inl err
    \<longrightarrow> delete_playlist e c playlist_id w
        = (Inl err, snd (priv_post e c ''/rest/deletePlaylist.view'' [(''id'', playlist_id)] None w)))
   \<and> (fst (priv_get e c ''/rest/search3.view''
         [(''query'', query), (''songCount'', str_int count), (''songOffset'', str_int offset)] w) = Inl err
    \<longrightarrow> search_songs e c query count offset w
        = (Inl err, snd (priv_get e c ''/rest/search3.view''
         [(''query'', query), (''songCount'', str_int count), (''songOffset'', str_int offset)] w)))
   \<and> ((enable_cache c \<longrightarrow> cache_get w (album_list2_key c list_type sz offset) = JNull)
      \<and> fst (priv_get e c ''/rest/getAlbumList2.view'' (album_list2_params list_type sz offset) w) = Inl err
    \<longrightarrow> get_album_list2 e c list_type sz offset w
        = (Inl err, snd (priv_get e c ''/rest/getAlbumList2.view'' (album_list2_params list_type sz offset) w)))
   \<and> ((enable_cache c \<longrightarrow> cache_get w (album_key c album_id) = JNull)
      \<and> fst (priv_get e c ''/rest/getAlbum.view'' [(''id'', album_id)] w) = Inl err
    \<longrightarrow> get_album e c album_id w
        = (Inl err, snd (priv_get e c ''/rest/getAlbum.view'' [(''id'', album_id)] w)))"
proof (intro conjI impI)
  show "pass2 e c cancel_flag progress_cb total_songs (a # rest) fetched w tr
        = pass2 e c cancel_flag progress_cb total_songs rest fetched w' tr'"
    if "poll cancel_flag tr = (False, tr') \<and> py_get a ''id'' (JStr []) = Inr id_value
      \<and> py_str id_value \<noteq> [] \<and> get_album e c (py_str id_value) w = (Inl err, w')"
    using that by (intro pass2_skips_failed_album [where id_value = id_value and err = err]) simp_all
  show "raised = TypeError \<or> raised = AttributeError"
    if "fst (pass2 e c cancel_flag progress_cb total_songs albums fetched w tr) = P2Raise raised"
    using that by (rule pass2_raises_fst)
  show "fst (update_playlist e c playlist_id new_name public w) = Inl err"
    if "fst (priv_post e c ''/rest/updatePlaylist.view''
         ([(''playlistId'', playlist_id)]
            @ (case new_name of None \<Rightarrow> [] | Some n \<Rightarrow> [(''name'', n)])
            @ (case public of None \<Rightarrow> [] | Some b \<Rightarrow> [(''public'', if b then ''true'' else ''false'')]))
         None w) = Inl err"
    using update_playlist_propagates [OF that] by simp
qed (simp_all add: ping_propagates get_playlists_propagates get_playlist_tracks_propagates
    create_playlist_propagates delete_playlist_propagates search_songs_propagates
    get_album_list2_propagates get_album_propagates)


lemma str_int_40: "str_int 40 = ''40''"
  by (simp add: str_int_def dec_nat.simps digit_char_def)

lemma refusing_request:
  "fst (priv_request refusing_env c endpoint params method song_ids w)
     = Inl (ValueError ''Subsonic error 40: Wrong username or password'')"
  by (simp add: priv_request_def Let_def refusing_env_def env_of_def fixed_server_def failed_envelope_def
      check_envelope_def py_contains_def py_subscript_def dict_get_def py_get_def py_str_def str_int_40)

theorem album_failure_skipped_witness:
  "fst (get_album (env_of (library_server three_albums middle_fails)) (demo_client False) ''b'' fresh_world)
     = Inl (ValueError ''HTTP error calling /rest/getAlbum.view: timed out'')
   \<and> fst (pass2 (env_of (library_server three_albums middle_fails)) (demo_client False) None True 3
          [mk_album ''b'' 1, mk_album ''c'' 1] 1 fresh_world []) = P2Done 2
   \<and> snd (snd (pass2 (env_of (library_server three_albums middle_fails)) (demo_client False) None True 3
          [mk_album ''b'' 1, mk_album ''c'' 1] 1 fresh_world [])) = [Progress 2 3, Yield (mk_song ''c1'')]
   \<and> fst (pass2 (env_of (library_server three_albums middle_fails)) (demo_client False) None True 3
          [JNull] 1 fresh_world []) = P2Raise AttributeError
   \<and> fst (ping refusing_env (demo_client True) cached_world)
       = Inl (ValueError ''Subsonic error 40: Wrong username or password'')
   \<and> fst (get_playlists refusing_env (demo_client True) cached_world)
       = Inl (ValueError ''Subsonic error 40: Wrong username or password'')
   \<and> fst (get_playlist_tracks refusing_env (demo_client True) ''7'' cached_world)
       = Inl (ValueError ''Subsonic error 40: Wrong username or password'')
   \<and> fst (create_playlist refusing_env (demo_client True) ''X'' [''a'', ''b''] cached_world)
       = Inl (ValueError ''Subsonic error 40: Wrong username or password'')
   \<and> fst (update_playlist refusing_env (demo_client True) ''7'' (Some ''Y'') None cached_world)
       = Inl (ValueError ''Subsonic error 40: Wrong username or password'')
   \<and> fst (delete_playlist refusing_env (demo_client True) ''7'' cached_world)
       = Inl (ValueError ''Subsonic error 40: Wrong username or password'')
   \<and> fst (search_songs refusing_env (demo_client True) ''abba'' 10 0 cached_world)
       = Inl (ValueError ''Subsonic error 40: Wrong username or password'')
   \<and> fst (get_album_list2 refusing_env (demo_client True) ''newest'' 500 0 cached_world)
       = Inl (ValueError ''Subsonic error 40: Wrong username or password'')
   \<and> fst (get_album refusing_env (demo_client True) ''42'' cached_world)
       = Inl (ValueError ''Subsonic error 40: Wrong username or password'')"
proof -
  let ?e = "env_of (library_server three_albums middle_fails)" and ?c = "demo_client False"
  let ?w' = "snd (get_album ?e ?c ''b'' fresh_world)"
  have nc: "\<not> enable_cache ?c" by (simp add: demo_client_def)
  have fb: "fst (get_album ?e ?c ''b'' fresh_world)
      = Inl (ValueError ''HTTP error calling /rest/getAlbum.view: timed out'')"
    using library_get_album_fail [OF nc, of middle_fails "''b''" "''timed out''"]
    by (simp add: middle_fails_def)
  have gb: "get_album ?e ?c (py_str (JStr ''b'')) fresh_world
      = (Inl (ValueError ''HTTP error calling /rest/getAlbum.view: timed out''), ?w')"
    using fb by (simp add: prod_eq_iff py_str_def)
  have fc: "fst (get_album ?e ?c ''c'' w) = Inr (JList [mk_song ''c1''])" for w
    using library_get_album_ok [OF nc, of middle_fails "''c''" "[mk_song ''c1'']"]
    by (simp add: middle_fails_def)
  have rest: "pass2 ?e ?c None True 3 [mk_album ''c'' 1] 1 ?w' []
      = (P2Done 2, snd (get_album ?e ?c ''c'' ?w'), [Progress 2 3, Yield (mk_song ''c1'')])"
    by (simp add: poll_def py_get_def mk_album_def dict_get_def py_str_def case_prod_beta fc py_iter_def
        report_def)
  have h: "poll None [] = (False, []) \<and> py_get (mk_album ''b'' 1) ''id'' (JStr []) = Inr (JStr ''b'')
      \<and> py_str (JStr ''b'') \<noteq> [] \<and> get_album ?e ?c (py_str (JStr ''b'')) fresh_world
          = (Inl (ValueError ''HTTP error calling /rest/getAlbum.view: timed out''), ?w')"
    using gb by (simp add: poll_def py_get_def mk_album_def dict_get_def py_str_def)
  have m0: "cache_get cached_world k = JNull" for k
    by (simp add: cache_get_def cached_world_def)
  note skip = album_failure_skipped [where e = ?e and c = ?c and cancel_flag = None and tr = "[]"
      and tr' = "[]" and a = "mk_album ''b'' 1" and id_value = "JStr ''b''" and w = fresh_world and w' = ?w'
      and err = "ValueError ''HTTP error calling /rest/getAlbum.view: timed out''"
      and rest = "[mk_album ''c'' 1]" and fetched = "1" and total_songs = "3" and progress_cb = True,
      THEN conjunct1, rule_format, OF h]
  note failures = album_failure_skipped [where e = refusing_env and c = "demo_client True" and w = cached_world
      and err = "ValueError ''Subsonic error 40: Wrong username or password''"
      and playlist_id = "''7''" and name = "''X''" and song_ids = "[''a'', ''b'']"
      and new_name = "Some ''Y''" and public = None and query = "''abba''" and count = "10" and offset = "0"
      and list_type = "''newest''" and sz = "500" and album_id = "''42''", THEN conjunct2, THEN conjunct2]
  have bad: "fst (pass2 ?e ?c None True 3 [JNull] 1 fresh_world []) = P2Raise AttributeError"
    by (simp add: poll_def py_get_def)
  show ?thesis
    using fb skip rest failures bad
    by (simp add: priv_get_def priv_post_def refusing_request m0)
qed

subsection \<open>The library streamer\<close>

subsubsection \<open>Decimal numerals and the pages of the library server\<close>

lemma digit_val_char: "k < 10 \<Longrightarrow> digit_val (''0123456789'' ! k) = k"
proof -
  assume "k < 10"
  then have "k = 0 \<or> k = 1 \<or> k = 2 \<or> k = 3 \<or> k = 4 \<or> k = 5 \<or> k = 6 \<or> k = 7 \<or> k = 8 \<or> k = 9"
    by arith
  then show ?thesis
    by (elim disjE) (simp_all add: digit_val_def)
qed

lemma digit_val_digit_char: "digit_val (digit_char d) = d mod 10"
  by (simp add: digit_char_def digit_val_char)

lemma nat_of_dec_snoc: "nat_of_dec (s @ [ch]) = 10 * nat_of_dec s + digit_val ch"
  by (simp add: nat_of_dec_def)

lemma nat_of_dec_dec_nat: "nat_of_dec (dec_nat n) = n"
proof (induction n rule: dec_nat.induct)
  case (1 n)
  show ?case
  proof (cases "n < 10")
    case True
    then show ?thesis
      by (subst dec_nat.simps) (simp add: nat_of_dec_def digit_val_digit_char)
  next
    case False
    then have "nat_of_dec (dec_nat n) = 10 * nat_of_dec (dec_nat (n div 10)) + n mod 10"
      by (subst dec_nat.simps) (simp add: nat_of_dec_snoc digit_val_digit_char)
    then show ?thesis using "1.IH" [OF False] by simp
  qed
qed

lemma nat_of_dec_str_int: "0 \<le> i \<Longrightarrow> nat_of_dec (str_int i) = nat i"
  by (simp add: str_int_def nat_of_dec_dec_nat)

lemma str_int_inj: "0 \<le> i \<Longrightarrow> 0 \<le> j \<Longrightarrow> str_int i = str_int j \<Longrightarrow> i = j"
  using nat_of_dec_str_int by (metis nat_eq_iff2)

lemma library_page:
  assumes "enable_cache c \<longrightarrow> cache_get w (album_list2_key c list_type sz offset) = JNull"
    and "0 \<le> sz" and "0 \<le> offset"
  shows "fst (get_album_list2 (env_of (library_server catalog songs_of)) c list_type sz offset w)
     = Inr (JList (take (nat sz) (drop (nat offset) catalog)))"
  using assms
  by (simp add: fst_get_album_list2_miss fst_priv_get library_page_request envelope_def check_envelope_ok
      list_field_def dict_get_def py_get_def wrap_single_def is_dict_def nat_of_dec_str_int)


subsubsection \<open>The progress callback\<close>

lemma yielded_append: "yielded (xs @ ys) = yielded xs @ yielded ys"
  by (induction xs rule: yielded.induct) simp_all

lemma progress_calls_append: "progress_calls (xs @ ys) = progress_calls xs @ progress_calls ys"
  by (induction xs rule: progress_calls.induct) simp_all

lemma poll_ext:
  "poll cancel_flag tr = (b, tr') \<Longrightarrow> \<exists>ext. tr' = tr @ ext \<and> yielded ext = [] \<and> progress_calls ext = []"
  by (cases cancel_flag) (auto simp: poll_def)

lemma report_yielded: "yielded (report progress_cb f t) = []"
  by (simp add: report_def)

lemma report_calls: "(g, t') \<in> set (progress_calls (report progress_cb f t)) \<Longrightarrow> g = f \<and> t' = t"
  by (simp add: report_def split: if_splits)

lemma song_loop_ext:
  "song_loop cancel_flag progress_cb total_songs items fetched tr = (stopped, fetched', tr')
    \<Longrightarrow> \<exists>ext. tr' = tr @ ext \<and> fetched' = fetched + int (length (yielded ext))
          \<and> list_all (\<lambda>(g, t). t = total_songs \<and> fetched < g \<and> g \<le> fetched') (progress_calls ext)"
proof (induction items arbitrary: fetched tr)
  case Nil
  then show ?case by simp
next
  case (Cons s items)
  obtain b tr1 where p: "poll cancel_flag tr = (b, tr1)" by (cases "poll cancel_flag tr")
  from poll_ext [OF p] obtain e1 where e1: "tr1 = tr @ e1" "yielded e1 = []" "progress_calls e1 = []"
    by blast
  show ?case
  proof (cases b)
    case True
    then show ?thesis using Cons.prems p e1 by auto
  next
    case False
    let ?tr2 = "tr1 @ report progress_cb (fetched + 1) total_songs @ [Yield s]"
    have run: "song_loop cancel_flag progress_cb total_songs items (fetched + 1) ?tr2 = (stopped, fetched', tr')"
      using Cons.prems p False by simp
    from Cons.IH [OF run] obtain e2 where e2: "tr' = ?tr2 @ e2"
      "fetched' = fetched + 1 + int (length (yielded e2))"
      "list_all (\<lambda>(g, t). t = total_songs \<and> fetched + 1 < g \<and> g \<le> fetched') (progress_calls e2)"
      by blast
    let ?ext = "e1 @ report progress_cb (fetched + 1) total_songs @ [Yield s] @ e2"
    have a: "tr' = tr @ ?ext" using e2(1) e1(1) by simp
    have b: "fetched' = fetched + int (length (yielded ?ext))"
      using e2(2) e1(2) by (simp add: yielded_append report_yielded)
    have c2: "list_all (\<lambda>(g, t). t = total_songs \<and> fetched < g \<and> g \<le> fetched') (progress_calls e2)"
      using e2(3) by (auto simp: list_all_iff)
    have c1: "list_all (\<lambda>(g, t). t = total_songs \<and> fetched < g \<and> g \<le> fetched')
                (progress_calls (report progress_cb (fetched + 1) total_songs))"
      using e2(2) by (simp add: report_def)
    have c: "list_all (\<lambda>(g, t). t = total_songs \<and> fetched < g \<and> g \<le> fetched') (progress_calls ?ext)"
      using c1 c2 e1(3) by (simp add: progress_calls_append)
    show ?thesis using a b c by blast
  qed
qed


lemma calls_weaken:
  "list_all (\<lambda>(g, t). t = total_songs \<and> lo < g \<and> g \<le> hi) cs \<Longrightarrow> lo' \<le> lo \<Longrightarrow> hi \<le> hi'
    \<Longrightarrow> list_all (\<lambda>(g, t). t = total_songs \<and> lo' < g \<and> g \<le> (hi' :: int)) cs"
  by (auto simp: list_all_iff)

lemma pass2_ext:
  "pass2 e c cancel_flag progress_cb total_songs albums fetched w tr = (res, w', tr')
    \<Longrightarrow> \<exists>ext. tr' = tr @ ext
          \<and> list_all (\<lambda>(g, t). t = total_songs \<and> fetched < g \<and> g \<le> fetched + int (length (yielded ext)))
               (progress_calls ext)
          \<and> (\<forall>f'. res = P2Done f' \<longrightarrow> f' = fetched + int (length (yielded ext)))"
proof (induction albums arbitrary: fetched w tr)
  case Nil
  then have "tr' = tr @ []" "res = P2Done fetched" by simp_all
  then show ?case by (intro exI [of _ "[]"]) simp
next
  case (Cons a rest)
  obtain b tr1 where p: "poll cancel_flag tr = (b, tr1)" by (cases "poll cancel_flag tr")
  from poll_ext [OF p] obtain e1 where e1: "tr1 = tr @ e1" "yielded e1 = []" "progress_calls e1 = []"
    by blast
  have stop_here: ?case if "tr' = tr1" "\<And>f'. res \<noteq> P2Done f'"
    using that e1 by (intro exI [of _ e1]) simp
  show ?case
  proof (cases b)
    case True
    then have "(P2Return, w, tr1) = (res, w', tr')" using Cons.prems p by simp
    then show ?thesis by (intro stop_here) auto
  next
    case nb: False
    show ?thesis
    proof (cases "py_get a ''id'' (JStr [])")
      case (Inl err)
      then have "(P2Raise err, w, tr1) = (res, w', tr')" using Cons.prems p nb by simp
      then show ?thesis by (intro stop_here) auto
    next
      case (Inr id_value)
      show ?thesis
      proof (cases "py_str id_value = []")
        case True
        then have run: "pass2 e c cancel_flag progress_cb total_songs rest fetched w tr1 = (res, w', tr')"
          using Cons.prems p nb Inr by simp
        from Cons.IH [OF run] obtain e3 where e3: "tr' = tr1 @ e3"
          "list_all (\<lambda>(g, t). t = total_songs \<and> fetched < g \<and> g \<le> fetched + int (length (yielded e3)))
               (progress_calls e3)"
          "\<forall>f'. res = P2Done f' \<longrightarrow> f' = fetched + int (length (yielded e3))"
          by blast
        show ?thesis
          using e3 e1 by (intro exI [of _ "e1 @ e3"]) (simp add: yielded_append progress_calls_append)
      next
        case ne: False
        obtain r w1 where g: "get_album e c (py_str id_value) w = (r, w1)"
          by (cases "get_album e c (py_str id_value) w")
        show ?thesis
        proof (cases "py_iter (case r of Inl err \<Rightarrow> JList [] | Inr songs \<Rightarrow> songs)")
          case (Inl err)
          then have "(P2Raise err, w1, tr1) = (res, w', tr')" using Cons.prems p nb Inr ne g by simp
          then show ?thesis by (intro stop_here) auto
        next
          case items: (Inr items)
          obtain st f2 tr2 where sl: "song_loop cancel_flag progress_cb total_songs items fetched tr1 = (st, f2, tr2)"
            by (cases "song_loop cancel_flag progress_cb total_songs items fetched tr1") auto
          from song_loop_ext [OF sl] obtain e2 where e2: "tr2 = tr1 @ e2"
            "f2 = fetched + int (length (yielded e2))"
            "list_all (\<lambda>(g, t). t = total_songs \<and> fetched < g \<and> g \<le> f2) (progress_calls e2)"
            by blast
          show ?thesis
          proof (cases st)
            case True
            then have "(P2Return, w1, tr2) = (res, w', tr')" using Cons.prems p nb Inr ne g items sl by simp
            then have r: "tr' = tr2" "\<forall>f'. res \<noteq> P2Done f'" by auto
            show ?thesis
              using r e2 e1 by (intro exI [of _ "e1 @ e2"]) (simp add: yielded_append progress_calls_append)
          next
            case False
            then have run: "pass2 e c cancel_flag progress_cb total_songs rest f2 w1 tr2 = (res, w', tr')"
              using Cons.prems p nb Inr ne g items sl by simp
            from Cons.IH [OF run] obtain e3 where e3: "tr' = tr2 @ e3"
              "list_all (\<lambda>(g, t). t = total_songs \<and> f2 < g \<and> g \<le> f2 + int (length (yielded e3)))
                 (progress_calls e3)"
              "\<forall>f'. res = P2Done f' \<longrightarrow> f' = f2 + int (length (yielded e3))"
              by blast
            let ?ext = "e1 @ e2 @ e3"
            let ?hi = "fetched + int (length (yielded ?ext))"
            have y: "yielded ?ext = yielded e2 @ yielded e3"
              and pc: "progress_calls ?ext = progress_calls e2 @ progress_calls e3"
              using e1 by (simp_all add: yielded_append progress_calls_append)
            have hi: "?hi = f2 + int (length (yielded e3))" using y e2(2) by simp
            have a: "tr' = tr @ ?ext" using e3(1) e2(1) e1(1) by simp
            have c2: "list_all (\<lambda>(g, t). t = total_songs \<and> fetched < g \<and> g \<le> ?hi) (progress_calls e2)"
              by (rule calls_weaken [OF e2(3)]) (simp_all add: hi)
            have c3: "list_all (\<lambda>(g, t). t = total_songs \<and> fetched < g \<and> g \<le> ?hi) (progress_calls e3)"
              by (rule calls_weaken [OF e3(2)]) (simp_all add: hi e2(2))
            have c: "list_all (\<lambda>(g, t). t = total_songs \<and> fetched < g \<and> g \<le> ?hi) (progress_calls ?ext)"
              using c2 c3 by (simp only: pc list_all_append)
            have d: "\<forall>f'. res = P2Done f' \<longrightarrow> f' = ?hi" using e3(3) hi by simp
            show ?thesis using a c d by (intro exI [of _ ?ext]) simp
          qed
        qed
      qed
    qed
  qed
qed

lemma pass1_exit: "\<not> pages < max_pages
    \<Longrightarrow> pass1 e c cancel_flag page_size max_pages pages offset total_songs all_albums w tr
        = (P1Done total_songs all_albums, w, tr)"
  by (subst pass1.simps) simp

lemma pass1_cancelled: "pages < max_pages \<Longrightarrow> poll cancel_flag tr = (True, tr1)
    \<Longrightarrow> pass1 e c cancel_flag page_size max_pages pages offset total_songs all_albums w tr
        = (P1Return, w, tr1)"
  by (subst pass1.simps) simp

lemma pass1_step:
  "pages < max_pages \<Longrightarrow> poll cancel_flag tr = (False, tr1)
    \<Longrightarrow> get_album_list2 e c ''alphabeticalByName'' page_size offset w = (r, w1)
    \<Longrightarrow> pass1 e c cancel_flag page_size max_pages pages offset total_songs all_albums w tr
        = (case r of
             Inl err \<Rightarrow> (P1Raise err, w1, tr1)
           | Inr albums \<Rightarrow>
               if \<not> truthy albums then (P1Done total_songs all_albums, w1, tr1)
               else
                 (case py_iter albums of
                    Inl err \<Rightarrow> (P1Raise err, w1, tr1)
                  | Inr items \<Rightarrow>
                      (case count_page e items 0 of
                         Inl err \<Rightarrow> (P1Raise err, w1, tr1)
                       | Inr page_song_count \<Rightarrow>
                           if int (length items) < page_size
                           then (P1Done (total_songs + page_song_count) (all_albums @ items), w1, tr1)
                           else pass1 e c cancel_flag page_size max_pages (pages + 1)
                                  (offset + page_size) (total_songs + page_song_count)
                                  (all_albums @ items) w1 tr1)))"
  by (subst pass1.simps) (simp split: sum.splits)

lemma pass1_ext:
  "pass1 e c cancel_flag page_size max_pages pages offset total_songs all_albums w tr = (res, w', tr')
    \<Longrightarrow> \<exists>ext. tr' = tr @ ext \<and> yielded ext = [] \<and> progress_calls ext = []"
proof (induction e c cancel_flag page_size max_pages pages offset total_songs all_albums w tr
    rule: pass1.induct)
  case (1 e c cancel_flag page_size max_pages pages offset total_songs all_albums w tr)
  show ?case
  proof (cases "pages < max_pages")
    case False
    then show ?thesis using "1.prems" by (simp add: pass1_exit)
  next
    case lt: True
    obtain b tr1 where p: "poll cancel_flag tr = (b, tr1)" by (cases "poll cancel_flag tr")
    from poll_ext [OF p] have e1: "\<exists>ext. tr1 = tr @ ext \<and> yielded ext = [] \<and> progress_calls ext = []" .
    show ?thesis
    proof (cases b)
      case True
      then have "tr' = tr1" using "1.prems" lt p by (simp add: pass1_cancelled)
      then show ?thesis using e1 by simp
    next
      case nb: False
      obtain r w1 where g: "get_album_list2 e c ''alphabeticalByName'' page_size offset w = (r, w1)"
        by (cases "get_album_list2 e c ''alphabeticalByName'' page_size offset w")
      have p': "poll cancel_flag tr = (False, tr1)" using p nb by simp
      note step = pass1_step [OF lt p' g, where total_songs = total_songs and all_albums = all_albums]
      show ?thesis
      proof (cases r)
        case (Inl err)
        then have "tr' = tr1" using "1.prems" step by simp
        then show ?thesis using e1 by simp
      next
        case albums: (Inr albums)
        show ?thesis
        proof (cases "truthy albums")
          case False
          then have "tr' = tr1" using "1.prems" step albums by simp
          then show ?thesis using e1 by simp
        next
          case tr: True
          show ?thesis
          proof (cases "py_iter albums")
            case (Inl err)
            then have "tr' = tr1" using "1.prems" step albums tr by simp
            then show ?thesis using e1 by simp
          next
            case items: (Inr items)
            show ?thesis
            proof (cases "count_page e items 0")
              case (Inl err)
              then have "tr' = tr1" using "1.prems" step albums tr items by simp
              then show ?thesis using e1 by simp
            next
              case n: (Inr n)
              show ?thesis
              proof (cases "int (length items) < page_size")
                case True
                then have "tr' = tr1" using "1.prems" step albums tr items n by simp
                then show ?thesis using e1 by simp
              next
                case False
                then have run: "pass1 e c cancel_flag page_size max_pages (pages + 1) (offset + page_size)
                    (total_songs + n) (all_albums @ items) w1 tr1 = (res, w', tr')"
                  using "1.prems" step albums tr items n by simp
                have nb': "b = False" using nb by simp
                have t: "\<not> \<not> truthy albums" using tr by simp
                from "1.IH" [OF lt p [symmetric] nb' g [symmetric] albums t items n False run]
                obtain e2 where e2: "tr' = tr1 @ e2" "yielded e2 = []" "progress_calls e2 = []"
                  by blast
                obtain e0 where e0: "tr1 = tr @ e0" "yielded e0 = []" "progress_calls e0 = []"
                  using e1 by blast
                show ?thesis
                  using e0 e2 by (intro exI [of _ "e0 @ e2"]) (simp add: yielded_append progress_calls_append)
              qed
            qed
          qed
        qed
      qed
    qed
  qed
qed


text \<open>
  Claim C2, as the code has it. Every call of the progress callback carries the total that
  pass 1 computed and a count between 0 and the number of songs the run yields. So no call
  has a count above the total when pass 2 yields at most as many songs as pass 1 counted.
\<close>

theorem progress_calls_bounded:
  assumes "iter_all_songs_stream e c page_size max_pages progress_cb cancel_flag w = (r, w', tr)"
    and "(fetched, total_songs) \<in> set (progress_calls tr)"
  shows "(\<exists>all_albums. fst (pass1 e c cancel_flag page_size max_pages 0 0 0 [] w []) = P1Done total_songs all_albums)
       \<and> 0 \<le> fetched \<and> fetched \<le> int (length (yielded tr))
       \<and> (int (length (yielded tr)) \<le> total_songs \<longrightarrow> fetched \<le> total_songs)"
proof -
  obtain res1 w1 tr1 where p1: "pass1 e c cancel_flag page_size max_pages 0 0 0 [] w [] = (res1, w1, tr1)"
    by (cases "pass1 e c cancel_flag page_size max_pages 0 0 0 [] w []") auto
  from pass1_ext [OF p1] have q1: "yielded tr1 = []" "progress_calls tr1 = []" by auto
  show ?thesis
  proof (cases res1)
    case (P1Raise err)
    then have "tr = tr1" using assms(1) p1 by (simp add: iter_all_songs_stream_def)
    then show ?thesis using assms(2) q1 by simp
  next
    case P1Return
    then have "tr = tr1" using assms(1) p1 by (simp add: iter_all_songs_stream_def)
    then show ?thesis using assms(2) q1 by simp
  next
    case (P1Done t all_albums)
    obtain res2 w2 tr2 where p2: "pass2 e c cancel_flag progress_cb t all_albums 0 w1
        (tr1 @ report progress_cb 0 t) = (res2, w2, tr2)"
      by (cases "pass2 e c cancel_flag progress_cb t all_albums 0 w1 (tr1 @ report progress_cb 0 t)") auto
    from pass2_ext [OF p2] obtain ext where ext: "tr2 = (tr1 @ report progress_cb 0 t) @ ext"
      "list_all (\<lambda>(g, t'). t' = t \<and> 0 < g \<and> g \<le> 0 + int (length (yielded ext))) (progress_calls ext)"
      "\<forall>f'. res2 = P2Done f' \<longrightarrow> f' = 0 + int (length (yielded ext))"
      by blast
    have tr: "tr = tr2 @ (case res2 of P2Done f \<Rightarrow> report progress_cb f t | _ \<Rightarrow> [])"
      using assms(1) p1 P1Done p2 by (cases res2) (simp_all add: iter_all_songs_stream_def)
    have y: "yielded tr = yielded ext"
      using tr ext(1) q1 by (cases res2) (simp_all add: yielded_append report_yielded)
    have calls: "set (progress_calls tr) \<subseteq> set (progress_calls (report progress_cb 0 t))
        \<union> set (progress_calls ext)
        \<union> set (progress_calls (report progress_cb (int (length (yielded ext))) t))"
      using tr ext(1,3) q1 by (cases res2) (auto simp: progress_calls_append)
    from assms(2) calls consider
        (first) "(fetched, total_songs) \<in> set (progress_calls (report progress_cb 0 t))"
      | (song) "(fetched, total_songs) \<in> set (progress_calls ext)"
      | (final) "(fetched, total_songs)
          \<in> set (progress_calls (report progress_cb (int (length (yielded ext))) t))"
      by blast
    then have "total_songs = t \<and> 0 \<le> fetched \<and> fetched \<le> int (length (yielded ext))"
    proof cases
      case first
      from report_calls [OF this] show ?thesis by simp
    next
      case song
      then have "total_songs = t \<and> 0 < fetched \<and> fetched \<le> 0 + int (length (yielded ext))"
        using ext(2) unfolding list_all_iff by fast
      then show ?thesis by simp
    next
      case final
      from report_calls [OF this] show ?thesis by simp
    qed
    then show ?thesis using y P1Done p1 by simp
  qed
qed


lemma pass1_single_page:
  assumes "\<not> enable_cache c" and "int (length catalog) < page_size" and "0 < max_pages"
    and "count_page (env_of (library_server catalog songs_of)) catalog 0 = Inr n"
    and "poll cancel_flag tr = (False, tr1)"
  shows "pass1 (env_of (library_server catalog songs_of)) c cancel_flag page_size max_pages 0 0 0 [] w tr
     = (P1Done n catalog,
        snd (get_album_list2 (env_of (library_server catalog songs_of)) c ''alphabeticalByName'' page_size 0 w),
        tr1)"
proof -
  let ?e = "env_of (library_server catalog songs_of)"
  have ps: "0 \<le> page_size" using assms(2) by simp
  have "fst (get_album_list2 ?e c ''alphabeticalByName'' page_size 0 w)
      = Inr (JList (take (nat page_size) (drop (nat 0) catalog)))"
    using assms(1) ps by (intro library_page) simp_all
  moreover have "take (nat page_size) catalog = catalog" using assms(2) by simp
  ultimately have g: "get_album_list2 ?e c ''alphabeticalByName'' page_size 0 w
      = (Inr (JList catalog), snd (get_album_list2 ?e c ''alphabeticalByName'' page_size 0 w))"
    by (simp add: prod_eq_iff)
  have n: "catalog = [] \<Longrightarrow> n = 0" using assms(4) by simp
  show ?thesis
    using pass1_step [OF assms(3) assms(5) g, where total_songs = 0 and all_albums = "[]"] assms(2,4) n
    by (simp add: truthy_def py_iter_def)
qed

text \<open>
  Claim C2 as stated fails: the count is not capped. An album that reports no songs and
  has one makes the callback run with a count of 1 and a total of 0, twice.
\<close>

theorem progress_calls_bounded_counterexample:
  "progress_calls (snd (snd (iter_all_songs_stream (env_of (library_server undercounted one_song_each))
      (demo_client False) 500 10000 True None fresh_world))) = [(0, 0), (1, 0), (1, 0)]"
proof -
  have nc: "\<not> enable_cache (demo_client False)" by (simp add: demo_client_def)
  have ga: "fst (get_album (env_of (library_server catalog one_song_each)) (demo_client False) ''a'' w)
      = Inr (JList [mk_song ''a1''])" for w catalog
    using library_get_album_ok [OF nc, of one_song_each "''a''" "[mk_song ''a1'']"]
    by (simp add: one_song_each_def)
  have cp: "count_page e undercounted 0 = Inr 0" for e
    by (simp add: undercounted_def mk_album_def py_get_def dict_get_def py_int_def)
  have p1: "pass1 (env_of (library_server undercounted one_song_each)) (demo_client False) None 500 10000 0 0 0 []
       fresh_world []
     = (P1Done 0 undercounted, snd (get_album_list2 (env_of (library_server undercounted one_song_each))
          (demo_client False) ''alphabeticalByName'' 500 0 fresh_world), [])"
    by (rule pass1_single_page [OF nc _ _ cp]) (simp_all add: undercounted_def poll_def)
  show ?thesis
    unfolding iter_all_songs_stream_def p1
    by (simp add: undercounted_def report_def poll_def py_get_def mk_album_def
        dict_get_def py_str_def case_prod_beta ga py_iter_def)
qed

theorem progress_calls_bounded_witness:
  "(2, 3) \<in> set (progress_calls (snd (snd (iter_all_songs_stream
        (env_of (library_server three_albums middle_fails)) (demo_client False) 500 10000 True None fresh_world))))
   \<and> fst (pass1 (env_of (library_server three_albums middle_fails)) (demo_client False) None 500 10000 0 0 0 []
        fresh_world []) = P1Done 3 three_albums
   \<and> length (yielded (snd (snd (iter_all_songs_stream
        (env_of (library_server three_albums middle_fails)) (demo_client False) 500 10000 True None fresh_world))))
      = 2"
proof -
  let ?e = "env_of (library_server three_albums middle_fails)" and ?c = "demo_client False"
  let ?run = "iter_all_songs_stream ?e ?c 500 10000 True None fresh_world"
  have nc: "\<not> enable_cache ?c" by (simp add: demo_client_def)
  have ga: "fst (get_album (env_of (library_server catalog middle_fails)) ?c ''a'' w)
      = Inr (JList [mk_song ''a1''])" for w catalog
    using library_get_album_ok [OF nc, of middle_fails "''a''" "[mk_song ''a1'']"]
    by (simp add: middle_fails_def)
  have gb: "fst (get_album (env_of (library_server catalog middle_fails)) ?c ''b'' w)
      = Inl (ValueError ''HTTP error calling /rest/getAlbum.view: timed out'')" for w catalog
    using library_get_album_fail [OF nc, of middle_fails "''b''" "''timed out''"]
    by (simp add: middle_fails_def)
  have gc: "fst (get_album (env_of (library_server catalog middle_fails)) ?c ''c'' w)
      = Inr (JList [mk_song ''c1''])" for w catalog
    using library_get_album_ok [OF nc, of middle_fails "''c''" "[mk_song ''c1'']"]
    by (simp add: middle_fails_def)
  have cp: "count_page e three_albums 0 = Inr 3" for e
    by (simp add: three_albums_def mk_album_def py_get_def dict_get_def py_int_def)
  have p1: "pass1 ?e ?c None 500 10000 0 0 0 [] fresh_world []
     = (P1Done 3 three_albums, snd (get_album_list2 ?e ?c ''alphabeticalByName'' 500 0 fresh_world), [])"
    by (rule pass1_single_page [OF nc _ _ cp]) (simp_all add: three_albums_def poll_def)
  have tr: "snd (snd ?run)
     = [Progress 0 3, Progress 1 3, Yield (mk_song ''a1''), Progress 2 3, Yield (mk_song ''c1''), Progress 2 3]"
    unfolding iter_all_songs_stream_def p1
    by (simp add: three_albums_def report_def poll_def py_get_def mk_album_def
        dict_get_def py_str_def case_prod_beta ga gb gc py_iter_def)
  have run: "?run = (fst ?run, fst (snd ?run), snd (snd ?run))" by simp
  have call: "(2, 3) \<in> set (progress_calls (snd (snd ?run)))" by (simp add: tr)
  show ?thesis
    using progress_calls_bounded [OF run call] call p1 by (simp add: tr)
qed

subsubsection \<open>Cancellation\<close>

lemma poll_cases:
  "poll cancel_flag tr = (b, tr')
    \<Longrightarrow> (if b then tr' = tr @ [Checkpoint True] else tr' = tr \<or> tr' = tr @ [Checkpoint False])"
  by (cases cancel_flag) (auto simp: poll_def)

lemma poll_stop: "poll cancel_flag tr = (True, tr') \<Longrightarrow> tr' = tr @ [Checkpoint True]"
  using poll_cases by fastforce

lemma poll_go:
  "poll cancel_flag tr = (False, tr') \<Longrightarrow> Checkpoint True \<notin> set tr \<Longrightarrow> Checkpoint True \<notin> set tr'"
  using poll_cases by fastforce

lemma report_no_checkpoint: "Checkpoint b \<notin> set (report progress_cb f t)"
  by (simp add: report_def)

lemma song_loop_cancel:
  "song_loop cancel_flag progress_cb total_songs items fetched tr = (stopped, fetched', tr')
    \<Longrightarrow> Checkpoint True \<notin> set tr
    \<Longrightarrow> (if stopped then \<exists>pre. tr' = pre @ [Checkpoint True] \<and> Checkpoint True \<notin> set pre
         else Checkpoint True \<notin> set tr')"
proof (induction items arbitrary: fetched tr)
  case Nil
  then show ?case by simp
next
  case (Cons s items)
  obtain b tr1 where p: "poll cancel_flag tr = (b, tr1)" by (cases "poll cancel_flag tr")
  show ?case
  proof (cases b)
    case True
    then have "stopped" "tr' = tr1" using Cons.prems(1) p by simp_all
    moreover have "tr1 = tr @ [Checkpoint True]" using p True poll_stop by simp
    ultimately show ?thesis using Cons.prems(2) by simp
  next
    case False
    let ?tr2 = "tr1 @ report progress_cb (fetched + 1) total_songs @ [Yield s]"
    have run: "song_loop cancel_flag progress_cb total_songs items (fetched + 1) ?tr2 = (stopped, fetched', tr')"
      using Cons.prems(1) p False by simp
    have "Checkpoint True \<notin> set tr1" using p False Cons.prems(2) poll_go by simp
    then have "Checkpoint True \<notin> set ?tr2" by (simp add: report_no_checkpoint)
    from Cons.IH [OF run this] show ?thesis .
  qed
qed

lemma pass2_cancel:
  "pass2 e c cancel_flag progress_cb total_songs albums fetched w tr = (res, w', tr')
    \<Longrightarrow> Checkpoint True \<notin> set tr
    \<Longrightarrow> (if res = P2Return then \<exists>pre. tr' = pre @ [Checkpoint True] \<and> Checkpoint True \<notin> set pre
         else Checkpoint True \<notin> set tr')"
proof (induction albums arbitrary: fetched w tr)
  case Nil
  then show ?case by auto
next
  case (Cons a rest)
  obtain b tr1 where p: "poll cancel_flag tr = (b, tr1)" by (cases "poll cancel_flag tr")
  show ?case
  proof (cases b)
    case True
    then have "(P2Return, w, tr1) = (res, w', tr')" using Cons.prems(1) p by simp
    moreover have "tr1 = tr @ [Checkpoint True]" using p True poll_stop by simp
    ultimately show ?thesis using Cons.prems(2) by auto
  next
    case nb: False
    have clean: "Checkpoint True \<notin> set tr1" using p nb Cons.prems(2) poll_go by simp
    show ?thesis
    proof (cases "py_get a ''id'' (JStr [])")
      case (Inl err)
      then have "(P2Raise err, w, tr1) = (res, w', tr')" using Cons.prems(1) p nb by simp
      then show ?thesis using clean by auto
    next
      case (Inr id_value)
      show ?thesis
      proof (cases "py_str id_value = []")
        case True
        then have run: "pass2 e c cancel_flag progress_cb total_songs rest fetched w tr1 = (res, w', tr')"
          using Cons.prems(1) p nb Inr by simp
        from Cons.IH [OF run clean] show ?thesis .
      next
        case ne: False
        obtain r w1 where g: "get_album e c (py_str id_value) w = (r, w1)"
          by (cases "get_album e c (py_str id_value) w")
        show ?thesis
        proof (cases "py_iter (case r of Inl err \<Rightarrow> JList [] | Inr songs \<Rightarrow> songs)")
          case (Inl err)
          then have "(P2Raise err, w1, tr1) = (res, w', tr')" using Cons.prems(1) p nb Inr ne g by simp
          then show ?thesis using clean by auto
        next
          case items: (Inr items)
          obtain st f2 tr2 where sl: "song_loop cancel_flag progress_cb total_songs items fetched tr1 = (st, f2, tr2)"
            by (cases "song_loop cancel_flag progress_cb total_songs items fetched tr1") auto
          note inner = song_loop_cancel [OF sl clean]
          show ?thesis
          proof (cases st)
            case True
            then have "(P2Return, w1, tr2) = (res, w', tr')" using Cons.prems(1) p nb Inr ne g items sl by simp
            then show ?thesis using inner True by auto
          next
            case False
            then have run: "pass2 e c cancel_flag progress_cb total_songs rest f2 w1 tr2 = (res, w', tr')"
              using Cons.prems(1) p nb Inr ne g items sl by simp
            have "Checkpoint True \<notin> set tr2" using inner False by simp
            from Cons.IH [OF run this] show ?thesis .
          qed
        qed
      qed
    qed
  qed
qed

lemma pass1_cancel:
  "pass1 e c cancel_flag page_size max_pages pages offset total_songs all_albums w tr = (res, w', tr')
    \<Longrightarrow> Checkpoint True \<notin> set tr
    \<Longrightarrow> (if res = P1Return then \<exists>pre. tr' = pre @ [Checkpoint True] \<and> Checkpoint True \<notin> set pre
         else Checkpoint True \<notin> set tr')"
proof (induction e c cancel_flag page_size max_pages pages offset total_songs all_albums w tr
    rule: pass1.induct)
  case (1 e c cancel_flag page_size max_pages pages offset total_songs all_albums w tr)
  show ?case
  proof (cases "pages < max_pages")
    case False
    then show ?thesis using "1.prems" by (auto simp: pass1_exit)
  next
    case lt: True
    obtain b tr1 where p: "poll cancel_flag tr = (b, tr1)" by (cases "poll cancel_flag tr")
    show ?thesis
    proof (cases b)
      case True
      then have "(P1Return, w, tr1) = (res, w', tr')" using "1.prems"(1) lt p by (simp add: pass1_cancelled)
      moreover have "tr1 = tr @ [Checkpoint True]" using p True poll_stop by simp
      ultimately show ?thesis using "1.prems"(2) by auto
    next
      case nb: False
      have clean: "Checkpoint True \<notin> set tr1" using p nb "1.prems"(2) poll_go by simp
      obtain r w1 where g: "get_album_list2 e c ''alphabeticalByName'' page_size offset w = (r, w1)"
        by (cases "get_album_list2 e c ''alphabeticalByName'' page_size offset w")
      have p': "poll cancel_flag tr = (False, tr1)" using p nb by simp
      note step = pass1_step [OF lt p' g, where total_songs = total_songs and all_albums = all_albums]
      show ?thesis
      proof (cases r)
        case (Inl err)
        then have "(P1Raise err, w1, tr1) = (res, w', tr')" using "1.prems"(1) step by simp
        then show ?thesis using clean by auto
      next
        case albums: (Inr albums)
        show ?thesis
        proof (cases "truthy albums")
          case False
          then have "(P1Done total_songs all_albums, w1, tr1) = (res, w', tr')"
            using "1.prems"(1) step albums by simp
          then show ?thesis using clean by auto
        next
          case tr: True
          show ?thesis
          proof (cases "py_iter albums")
            case (Inl err)
            then have "(P1Raise err, w1, tr1) = (res, w', tr')" using "1.prems"(1) step albums tr by simp
            then show ?thesis using clean by auto
          next
            case items: (Inr items)
            show ?thesis
            proof (cases "count_page e items 0")
              case (Inl err)
              then have "(P1Raise err, w1, tr1) = (res, w', tr')"
                using "1.prems"(1) step albums tr items by simp
              then show ?thesis using clean by auto
            next
              case n: (Inr n)
              show ?thesis
              proof (cases "int (length items) < page_size")
                case True
                then have "(P1Done (total_songs + n) (all_albums @ items), w1, tr1) = (res, w', tr')"
                  using "1.prems"(1) step albums tr items n by simp
                then show ?thesis using clean by auto
              next
                case False
                then have run: "pass1 e c cancel_flag page_size max_pages (pages + 1) (offset + page_size)
                    (total_songs + n) (all_albums @ items) w1 tr1 = (res, w', tr')"
                  using "1.prems"(1) step albums tr items n by simp
                have nb': "b = False" using nb by simp
                have t: "\<not> \<not> truthy albums" using tr by simp
                from "1.IH" [OF lt p [symmetric] nb' g [symmetric] albums t items n False run clean]
                show ?thesis .
              qed
            qed
          qed
        qed
      qed
    qed
  qed
qed

lemma stream_cancel:
  assumes "iter_all_songs_stream e c page_size max_pages progress_cb cancel_flag w = (r, w', tr)"
    and "Checkpoint True \<in> set tr"
  shows "r = None \<and> (\<exists>pre. tr = pre @ [Checkpoint True] \<and> Checkpoint True \<notin> set pre)"
proof -
  obtain res1 w1 tr1 where p1: "pass1 e c cancel_flag page_size max_pages 0 0 0 [] w [] = (res1, w1, tr1)"
    by (cases "pass1 e c cancel_flag page_size max_pages 0 0 0 [] w []") auto
  have c1: "if res1 = P1Return then \<exists>pre. tr1 = pre @ [Checkpoint True] \<and> Checkpoint True \<notin> set pre
         else Checkpoint True \<notin> set tr1"
    by (rule pass1_cancel [OF p1]) simp
  show ?thesis
  proof (cases res1)
    case (P1Raise err)
    then have "tr = tr1" using assms(1) p1 by (simp add: iter_all_songs_stream_def)
    then show ?thesis using c1 P1Raise assms(2) by simp
  next
    case P1Return
    then have "tr = tr1" "r = None" using assms(1) p1 by (simp_all add: iter_all_songs_stream_def)
    then show ?thesis using c1 P1Return by simp
  next
    case (P1Done t all_albums)
    let ?tr0 = "tr1 @ report progress_cb 0 t"
    have clean: "Checkpoint True \<notin> set ?tr0" using c1 P1Done by (simp add: report_no_checkpoint)
    obtain res2 w2 tr2 where p2: "pass2 e c cancel_flag progress_cb t all_albums 0 w1 ?tr0 = (res2, w2, tr2)"
      by (cases "pass2 e c cancel_flag progress_cb t all_albums 0 w1 ?tr0") auto
    note c2 = pass2_cancel [OF p2 clean]
    show ?thesis
    proof (cases res2)
      case (P2Raise err)
      then have "tr = tr2" using assms(1) p1 P1Done p2 by (simp add: iter_all_songs_stream_def)
      then show ?thesis using c2 P2Raise assms(2) by simp
    next
      case P2Return
      then have "tr = tr2" "r = None" using assms(1) p1 P1Done p2 by (simp_all add: iter_all_songs_stream_def)
      then show ?thesis using c2 P2Return by simp
    next
      case (P2Done f)
      then have "tr = tr2 @ report progress_cb f t"
        using assms(1) p1 P1Done p2 by (simp add: iter_all_songs_stream_def)
      then show ?thesis using c2 P2Done assms(2) by (simp add: report_no_checkpoint)
    qed
  qed
qed


lemma four_albums_run:
  "iter_all_songs_stream (env_of (library_server four_albums four_songs)) (demo_client False) 500 10000 True
      (Some (cancel_after 3)) fresh_world
   = (None,
      fst (snd (iter_all_songs_stream (env_of (library_server four_albums four_songs)) (demo_client False)
        500 10000 True (Some (cancel_after 3)) fresh_world)),
      [Checkpoint False, Progress 0 6,
       Checkpoint False, Checkpoint False, Progress 1 6, Yield (mk_song ''a1''),
       Checkpoint False, Progress 2 6, Yield (mk_song ''a2''),
       Checkpoint False, Checkpoint False, Progress 3 6, Yield (mk_song ''b1''),
       Checkpoint True])"
proof -
  let ?e = "env_of (library_server four_albums four_songs)" and ?c = "demo_client False"
  have nc: "\<not> enable_cache ?c" by (simp add: demo_client_def)
  have ga: "fst (get_album (env_of (library_server catalog four_songs)) ?c ''a'' w)
      = Inr (JList [mk_song ''a1'', mk_song ''a2''])" for w catalog
    using library_get_album_ok [OF nc, of four_songs "''a''" "[mk_song ''a1'', mk_song ''a2'']"]
    by (simp add: four_songs_def)
  have gb: "fst (get_album (env_of (library_server catalog four_songs)) ?c ''b'' w)
      = Inr (JList [mk_song ''b1''])" for w catalog
    using library_get_album_ok [OF nc, of four_songs "''b''" "[mk_song ''b1'']"]
    by (simp add: four_songs_def)
  have cp: "count_page e four_albums 0 = Inr 6" for e
    by (simp add: four_albums_def mk_album_def py_get_def dict_get_def py_int_def)
  have p1: "pass1 ?e ?c (Some (cancel_after 3)) 500 10000 0 0 0 [] fresh_world []
     = (P1Done 6 four_albums, snd (get_album_list2 ?e ?c ''alphabeticalByName'' 500 0 fresh_world),
        [Checkpoint False])"
    by (rule pass1_single_page [OF nc _ _ cp]) (simp_all add: four_albums_def poll_def cancel_after_def)
  show ?thesis
    unfolding iter_all_songs_stream_def p1
    by (simp add: four_albums_def report_def poll_def cancel_after_def py_get_def mk_album_def
        dict_get_def py_str_def case_prod_beta ga gb py_iter_def prod_eq_iff)
qed

lemma poll_after:
  "poll (Some (cancel_after n)) tr
     = (n \<le> length (yielded tr), tr @ [Checkpoint (n \<le> length (yielded tr))])"
  by (simp add: poll_def cancel_after_def)

lemma poll_None: "poll None tr = (False, tr)"
  by (simp add: poll_def)

lemma song_loop_none:
  "song_loop None progress_cb total_songs items fetched tr = (st, fetched', tr')
    \<Longrightarrow> \<not> st \<and> fetched' = fetched + int (length items) \<and> yielded tr' = yielded tr @ items"
proof (induction items arbitrary: fetched tr)
  case Nil
  then show ?case by simp
next
  case (Cons s items)
  let ?tr2 = "tr @ report progress_cb (fetched + 1) total_songs @ [Yield s]"
  have run: "song_loop None progress_cb total_songs items (fetched + 1) ?tr2 = (st, fetched', tr')"
    using Cons.prems by (simp add: poll_None)
  from Cons.IH [OF run] show ?case by (simp add: yielded_append report_yielded)
qed

lemma song_loop_after:
  "song_loop (Some (cancel_after n)) progress_cb total_songs items fetched tr = (st, fetched', tr')
    \<Longrightarrow> yielded tr' = yielded tr @ take (n - length (yielded tr)) items
      \<and> st = (n - length (yielded tr) < length items)
      \<and> (\<not> st \<longrightarrow> fetched' = fetched + int (length items))"
proof (induction items arbitrary: fetched tr)
  case Nil
  then show ?case by simp
next
  case (Cons s items)
  show ?case
  proof (cases "n \<le> length (yielded tr)")
    case True
    then have "st" "tr' = tr @ [Checkpoint True]" using Cons.prems by (simp_all add: poll_after)
    then show ?thesis using True by (simp add: yielded_append)
  next
    case False
    let ?tr2 = "(tr @ [Checkpoint False]) @ report progress_cb (fetched + 1) total_songs @ [Yield s]"
    have run: "song_loop (Some (cancel_after n)) progress_cb total_songs items (fetched + 1) ?tr2
        = (st, fetched', tr')"
      using Cons.prems False by (simp add: poll_after)
    have y: "yielded ?tr2 = yielded tr @ [s]" by (simp add: yielded_append report_yielded)
    obtain d where d: "n - length (yielded tr) = Suc d" using False by (cases "n - length (yielded tr)") auto
    note ih = Cons.IH [OF run, unfolded y]
    have d': "n - Suc (length (yielded tr)) = d" using d by simp
    show ?thesis using ih d by (simp add: d')
  qed
qed

lemma pass2_after:
  "pass2 e c (Some (cancel_after n)) progress_cb total_songs albums fetched w tr = (res, w', tr')
    \<Longrightarrow> pass2 e c None progress_cb total_songs albums fetched w tr0 = (res0, w0, tr0')
    \<Longrightarrow> \<exists>ys. yielded tr0' = yielded tr0 @ ys
          \<and> yielded tr' = yielded tr @ take (n - length (yielded tr)) ys"
proof (induction albums arbitrary: fetched w tr tr0)
  case Nil
  then show ?case by - (rule exI [of _ "[]"], simp)
next
  case (Cons a rest)
  from pass2_ext [OF Cons.prems(2)] obtain ext0 where ext0: "tr0' = tr0 @ ext0" by blast
  have stalled: "\<exists>ys. yielded tr0' = yielded tr0 @ ys
          \<and> yielded tr' = yielded tr @ take (n - length (yielded tr)) ys" if "yielded tr' = yielded tr" "n \<le> length (yielded tr)"
    by (rule exI [of _ "yielded ext0"]) (simp add: that ext0 yielded_append)
  have both_stop: "\<exists>ys. yielded tr0' = yielded tr0 @ ys
          \<and> yielded tr' = yielded tr @ take (n - length (yielded tr)) ys" if "yielded tr' = yielded tr" "tr0' = tr0"
    by (rule exI [of _ "[]"]) (simp add: that)
  show ?case
  proof (cases "n \<le> length (yielded tr)")
    case True
    then have "(P2Return, w, tr @ [Checkpoint True]) = (res, w', tr')"
      using Cons.prems(1) by (simp add: poll_after)
    then have "yielded tr' = yielded tr" by (auto simp: yielded_append)
    then show ?thesis using True by (rule stalled)
  next
    case go: False
    let ?tr1 = "tr @ [Checkpoint False]"
    have y1: "yielded ?tr1 = yielded tr" by (simp add: yielded_append)
    show ?thesis
    proof (cases "py_get a ''id'' (JStr [])")
      case (Inl err)
      then have "(P2Raise err, w, ?tr1) = (res, w', tr')" "(P2Raise err, w, tr0) = (res0, w0, tr0')"
        using Cons.prems go by (simp_all add: poll_after poll_None)
      then have "yielded tr' = yielded tr" "tr0' = tr0" using y1 by auto
      then show ?thesis by (rule both_stop)
    next
      case (Inr id_value)
      show ?thesis
      proof (cases "py_str id_value = []")
        case True
        then have run: "pass2 e c (Some (cancel_after n)) progress_cb total_songs rest fetched w ?tr1
            = (res, w', tr')"
          and run0: "pass2 e c None progress_cb total_songs rest fetched w tr0 = (res0, w0, tr0')"
          using Cons.prems go Inr by (simp_all add: poll_after poll_None)
        from Cons.IH [OF run run0] show ?thesis unfolding y1 .
      next
        case ne: False
        obtain r w1 where g: "get_album e c (py_str id_value) w = (r, w1)"
          by (cases "get_album e c (py_str id_value) w")
        show ?thesis
        proof (cases "py_iter (case r of Inl err \<Rightarrow> JList [] | Inr songs \<Rightarrow> songs)")
          case (Inl err)
          then have "(P2Raise err, w1, ?tr1) = (res, w', tr')" "(P2Raise err, w1, tr0) = (res0, w0, tr0')"
            using Cons.prems go Inr ne g by (simp_all add: poll_after poll_None)
          then have "yielded tr' = yielded tr" "tr0' = tr0" using y1 by auto
          then show ?thesis by (rule both_stop)
        next
          case items: (Inr items)
          obtain st f2 t1 where sl: "song_loop (Some (cancel_after n)) progress_cb total_songs items fetched ?tr1
              = (st, f2, t1)"
            by (cases "song_loop (Some (cancel_after n)) progress_cb total_songs items fetched ?tr1") auto
          obtain st0 f0 t0 where sl0: "song_loop None progress_cb total_songs items fetched tr0 = (st0, f0, t0)"
            by (cases "song_loop None progress_cb total_songs items fetched tr0") auto
          note a1 = song_loop_after [OF sl, unfolded y1]
          note a0 = song_loop_none [OF sl0]
          have run0: "pass2 e c None progress_cb total_songs rest (fetched + int (length items)) w1 t0
              = (res0, w0, tr0')"
            using Cons.prems(2) Inr ne g items sl0 a0 by (simp add: poll_None)
          from pass2_ext [OF run0] obtain ext1 where ext1: "tr0' = t0 @ ext1" by blast
          show ?thesis
          proof (cases st)
            case True
            then have "(P2Return, w1, t1) = (res, w', tr')"
              using Cons.prems(1) go Inr ne g items sl by (simp add: poll_after)
            then have t: "tr' = t1" by simp
            have short: "n - length (yielded tr) < length items" using a1 True by simp
            show ?thesis
              by (rule exI [of _ "items @ yielded ext1"])
                (use t a1 a0 ext1 short in \<open>simp add: yielded_append\<close>)
          next
            case False
            then have f2: "f2 = fetched + int (length items)"
              and long: "length items \<le> n - length (yielded tr)" using a1 by simp_all
            have run: "pass2 e c (Some (cancel_after n)) progress_cb total_songs rest
                (fetched + int (length items)) w1 t1 = (res, w', tr')"
              using Cons.prems(1) go Inr ne g items sl False f2 by (simp add: poll_after)
            have y: "yielded t1 = yielded tr @ items" using a1 long by simp
            from Cons.IH [OF run run0] obtain ys where
              ys: "yielded tr0' = yielded t0 @ ys" "yielded tr' = yielded t1 @ take (n - length (yielded t1)) ys"
              by blast
            have "take (n - length (yielded tr)) (items @ ys)
                = items @ take (n - length (yielded tr) - length items) ys"
              using long by simp
            then show ?thesis
              by - (rule exI [of _ "items @ ys"], use ys a0 y in \<open>simp add: diff_diff_left\<close>)
          qed
        qed
      qed
    qed
  qed
qed

lemma pass1_uncancelled:
  "pass1 e c cancel_flag page_size max_pages pages offset total_songs all_albums w tr = (res, w', tr')
    \<Longrightarrow> \<forall>t. yielded t = [] \<longrightarrow> \<not> fst (poll cancel_flag t)
    \<Longrightarrow> yielded tr = []
    \<Longrightarrow> fst (pass1 e c None page_size max_pages pages offset total_songs all_albums w tr0) = res
      \<and> fst (snd (pass1 e c None page_size max_pages pages offset total_songs all_albums w tr0)) = w'"
proof (induction e c cancel_flag page_size max_pages pages offset total_songs all_albums w tr
    rule: pass1.induct)
  case (1 e c cancel_flag page_size max_pages pages offset total_songs all_albums w tr)
  show ?case
  proof (cases "pages < max_pages")
    case False
    then show ?thesis using "1.prems"(1) by (auto simp: pass1_exit)
  next
    case lt: True
    obtain b tr1 where p: "poll cancel_flag tr = (b, tr1)" by (cases "poll cancel_flag tr")
    have nb: "\<not> b" using "1.prems"(2,3) p by fastforce
    have p': "poll cancel_flag tr = (False, tr1)" using p nb by simp
    have p0: "poll None tr0 = (False, tr0)" by (simp add: poll_def)
    from poll_ext [OF p] have quiet: "yielded tr1 = []" using "1.prems"(3) by (auto simp: yielded_append)
    obtain r w1 where g: "get_album_list2 e c ''alphabeticalByName'' page_size offset w = (r, w1)"
      by (cases "get_album_list2 e c ''alphabeticalByName'' page_size offset w")
    note step = pass1_step [OF lt p' g, where total_songs = total_songs and all_albums = all_albums]
    note step0 = pass1_step [OF lt p0 g, where total_songs = total_songs and all_albums = all_albums]
    show ?thesis
    proof (cases r)
      case (Inl err)
      then have "(P1Raise err, w1, tr1) = (res, w', tr')" using "1.prems"(1) step by simp
      then show ?thesis using step0 Inl by auto
    next
      case albums: (Inr albums)
      show ?thesis
      proof (cases "truthy albums")
        case False
        then have "(P1Done total_songs all_albums, w1, tr1) = (res, w', tr')"
          using "1.prems"(1) step albums by simp
        then show ?thesis using step0 albums False by auto
      next
        case tr: True
        show ?thesis
        proof (cases "py_iter albums")
          case (Inl err)
          then have "(P1Raise err, w1, tr1) = (res, w', tr')" using "1.prems"(1) step albums tr by simp
          then show ?thesis using step0 albums tr Inl by auto
        next
          case items: (Inr items)
          show ?thesis
          proof (cases "count_page e items 0")
            case (Inl err)
            then have "(P1Raise err, w1, tr1) = (res, w', tr')"
              using "1.prems"(1) step albums tr items by simp
            then show ?thesis using step0 albums tr items Inl by auto
          next
            case n: (Inr n)
            show ?thesis
            proof (cases "int (length items) < page_size")
              case True
              then have "(P1Done (total_songs + n) (all_albums @ items), w1, tr1) = (res, w', tr')"
                using "1.prems"(1) step albums tr items n by simp
              then show ?thesis using step0 albums tr items n True by auto
            next
              case False
              then have run: "pass1 e c cancel_flag page_size max_pages (pages + 1) (offset + page_size)
                  (total_songs + n) (all_albums @ items) w1 tr1 = (res, w', tr')"
                using "1.prems"(1) step albums tr items n by simp
              have run0: "pass1 e c None page_size max_pages pages offset total_songs all_albums w tr0
                  = pass1 e c None page_size max_pages (pages + 1) (offset + page_size)
                      (total_songs + n) (all_albums @ items) w1 tr0"
                using step0 albums tr items n False by simp
              have nb': "b = False" using nb by simp
              have t: "\<not> \<not> truthy albums" using tr by simp
              from "1.IH" [OF lt p [symmetric] nb' g [symmetric] albums t items n False run "1.prems"(2) quiet]
              show ?thesis unfolding run0 .
            qed
          qed
        qed
      qed
    qed
  qed
qed

lemma cancel_after_quiet:
  "0 < n \<Longrightarrow> \<forall>t. yielded t = [] \<longrightarrow> \<not> fst (poll (Some (cancel_after n)) t)"
  by (simp add: poll_def cancel_after_def)

lemma stream_prefix:
  "yielded (snd (snd (iter_all_songs_stream e c page_size max_pages progress_cb (Some (cancel_after n)) w)))
    = take n (yielded (snd (snd (iter_all_songs_stream e c page_size max_pages progress_cb None w))))"
proof -
  let ?f = "Some (cancel_after n)"
  obtain res1 w1 tr1 where p1: "pass1 e c ?f page_size max_pages 0 0 0 [] w [] = (res1, w1, tr1)"
    by (cases "pass1 e c ?f page_size max_pages 0 0 0 [] w []") auto
  obtain res0 w0 tr0 where p0: "pass1 e c None page_size max_pages 0 0 0 [] w [] = (res0, w0, tr0)"
    by (cases "pass1 e c None page_size max_pages 0 0 0 [] w []") auto
  from pass1_ext [OF p1] have q1: "yielded tr1 = []" by auto
  from pass1_ext [OF p0] have q0: "yielded tr0 = []" by auto
  show ?thesis
  proof (cases "n = 0")
    case True
    show ?thesis
    proof (cases res1)
      case (P1Raise err)
      then show ?thesis using p1 q1 True by (simp add: iter_all_songs_stream_def)
    next
      case P1Return
      then show ?thesis using p1 q1 True by (simp add: iter_all_songs_stream_def)
    next
      case (P1Done t all_albums)
      let ?tr = "tr1 @ report progress_cb 0 t"
      obtain res2 w2 tr2 where p2: "pass2 e c ?f progress_cb t all_albums 0 w1 ?tr = (res2, w2, tr2)"
        by (cases "pass2 e c ?f progress_cb t all_albums 0 w1 ?tr") auto
      obtain res3 w3 tr3 where p3: "pass2 e c None progress_cb t all_albums 0 w1 ?tr = (res3, w3, tr3)"
        by (cases "pass2 e c None progress_cb t all_albums 0 w1 ?tr") auto
      from pass2_after [OF p2 p3] have "yielded tr2 = []"
        using True q1 by (auto simp: yielded_append report_yielded)
      then show ?thesis
        using p1 P1Done p2 True
        by (cases res2) (simp_all add: iter_all_songs_stream_def yielded_append report_yielded)
    qed
  next
    case False
    then have pos: "0 < n" by simp
    from pass1_uncancelled [OF p1 cancel_after_quiet [OF pos], of "[]"] p0
    have same: "res0 = res1" "w0 = w1" by simp_all
    show ?thesis
    proof (cases res1)
      case (P1Raise err)
      then show ?thesis using p1 p0 same q1 q0 by (simp add: iter_all_songs_stream_def)
    next
      case P1Return
      then show ?thesis using p1 p0 same q1 q0 by (simp add: iter_all_songs_stream_def)
    next
      case (P1Done t all_albums)
      let ?ta = "tr1 @ report progress_cb 0 t" and ?tb = "tr0 @ report progress_cb 0 t"
      obtain res2 w2 tr2 where p2: "pass2 e c ?f progress_cb t all_albums 0 w1 ?ta = (res2, w2, tr2)"
        by (cases "pass2 e c ?f progress_cb t all_albums 0 w1 ?ta") auto
      obtain res3 w3 tr3 where p3: "pass2 e c None progress_cb t all_albums 0 w1 ?tb = (res3, w3, tr3)"
        by (cases "pass2 e c None progress_cb t all_albums 0 w1 ?tb") auto
      from pass2_after [OF p2 p3] have y: "yielded tr2 = take n (yielded tr3)"
        using q1 q0 by (auto simp: yielded_append report_yielded)
      have lhs: "yielded (snd (snd (iter_all_songs_stream e c page_size max_pages progress_cb ?f w)))
          = yielded tr2"
        using p1 P1Done p2
        by (cases res2) (simp_all add: iter_all_songs_stream_def yielded_append report_yielded)
      have rhs: "yielded (snd (snd (iter_all_songs_stream e c page_size max_pages progress_cb None w)))
          = yielded tr3"
        using p0 same P1Done p3
        by (cases res3) (simp_all add: iter_all_songs_stream_def yielded_append report_yielded)
      show ?thesis using lhs rhs y by simp
    qed
  qed
qed

lemma four_albums_full:
  "yielded (snd (snd (iter_all_songs_stream (env_of (library_server four_albums four_songs))
      (demo_client False) 500 10000 True None fresh_world)))
   = [mk_song ''a1'', mk_song ''a2'', mk_song ''b1'', mk_song ''c1'', mk_song ''d1'', mk_song ''d2'']"
proof -
  let ?e = "env_of (library_server four_albums four_songs)" and ?c = "demo_client False"
  have nc: "\<not> enable_cache ?c" by (simp add: demo_client_def)
  have ga: "fst (get_album (env_of (library_server catalog four_songs)) ?c ''a'' w)
      = Inr (JList [mk_song ''a1'', mk_song ''a2''])" for w catalog
    using library_get_album_ok [OF nc, of four_songs "''a''" "[mk_song ''a1'', mk_song ''a2'']"]
    by (simp add: four_songs_def)
  have gb: "fst (get_album (env_of (library_server catalog four_songs)) ?c ''b'' w)
      = Inr (JList [mk_song ''b1''])" for w catalog
    using library_get_album_ok [OF nc, of four_songs "''b''" "[mk_song ''b1'']"]
    by (simp add: four_songs_def)
  have gc: "fst (get_album (env_of (library_server catalog four_songs)) ?c ''c'' w)
      = Inr (JList [mk_song ''c1''])" for w catalog
    using library_get_album_ok [OF nc, of four_songs "''c''" "[mk_song ''c1'']"]
    by (simp add: four_songs_def)
  have gd: "fst (get_album (env_of (library_server catalog four_songs)) ?c ''d'' w)
      = Inr (JList [mk_song ''d1'', mk_song ''d2''])" for w catalog
    using library_get_album_ok [OF nc, of four_songs "''d''" "[mk_song ''d1'', mk_song ''d2'']"]
    by (simp add: four_songs_def)
  have cp: "count_page e four_albums 0 = Inr 6" for e
    by (simp add: four_albums_def mk_album_def py_get_def dict_get_def py_int_def)
  have p1: "pass1 ?e ?c None 500 10000 0 0 0 [] fresh_world []
     = (P1Done 6 four_albums, snd (get_album_list2 ?e ?c ''alphabeticalByName'' 500 0 fresh_world), [])"
    by (rule pass1_single_page [OF nc _ _ cp]) (simp_all add: four_albums_def poll_def)
  show ?thesis
    unfolding iter_all_songs_stream_def p1
    by (simp add: four_albums_def report_def poll_def py_get_def mk_album_def
        dict_get_def py_str_def case_prod_beta ga gb gc gd py_iter_def)
qed

lemma song_loop_polled:
  "f seen \<Longrightarrow> song_loop (Some f) progress_cb total_songs (song # songs) fetched seen
      = (True, fetched, seen @ [Checkpoint True])"
  by (simp add: poll_def)

lemma pass2_polled:
  "f seen \<Longrightarrow> pass2 e c (Some f) progress_cb total_songs (album # albums) fetched w seen
      = (P2Return, w, seen @ [Checkpoint True])"
  by (simp add: poll_def)

lemma pass1_polled:
  "pages < max_pages \<Longrightarrow> f seen
    \<Longrightarrow> pass1 e c (Some f) page_size max_pages pages offset total_songs all_albums w seen
      = (P1Return, w, seen @ [Checkpoint True])"
  by (rule pass1_cancelled) (simp_all add: poll_def)

lemma stream_polled:
  "0 < max_pages \<Longrightarrow> f []
    \<Longrightarrow> iter_all_songs_stream e c page_size max_pages progress_cb (Some f) w = (None, w, [Checkpoint True])"
  using pass1_polled [of 0 max_pages f "[]" e c page_size 0 0 "[]" w]
  by (simp add: iter_all_songs_stream_def)

lemma checkpoint_last:
  assumes "iter_all_songs_stream e c page_size max_pages progress_cb cancel_flag w = (r, w', tr)"
    and "tr = pre @ Checkpoint True # post"
  shows "post = [] \<and> r = None"
proof -
  have mem: "Checkpoint True \<in> set tr" using assms(2) by simp
  from stream_cancel [OF assms(1) mem] obtain pre' where
    r: "r = None" and e: "tr = pre' @ [Checkpoint True]" and n: "Checkpoint True \<notin> set pre'"
    by blast
  have "post = []"
  proof (rule ccontr)
    assume ne: "post \<noteq> []"
    have "butlast tr = pre'" using e by simp
    moreover have "butlast tr = pre @ Checkpoint True # butlast post"
      using assms(2) ne by (simp add: butlast_append)
    ultimately show False using n by auto
  qed
  then show ?thesis using r by simp
qed

text \<open>
  Claim C3. The cancellation predicate is asked at the head of every round of the three
  loops: before each page request of pass 1, before each album of pass 2 and before each
  song of an album. When it answers true there, the generator returns at once: no request
  is made (the world is unchanged), nothing is yielded, the progress callback is not
  called, and the only new event is the checkpoint itself. So a run whose predicate is
  true from the start makes no request at all. In every run, a checkpoint at which the
  predicate answered true is the last event, and the run ends without an error. A
  predicate that turns true once \<open>n\<close> songs are out makes the stream yield exactly the
  first \<open>n\<close> songs of the uncancelled stream, for every server, client and cache; so
  when the songs of the first albums are out and the predicate turns true, exactly those
  songs are yielded. In particular, for four albums with two, one, one and two songs
  and a predicate that turns true once three songs are out, the run ends without an
  error and yields the songs of the first two albums, no more.
\<close>

theorem cancellation_ends_stream:
  "(iter_all_songs_stream e c page_size max_pages progress_cb cancel_flag w = (r, w', tr)
      \<and> tr = pre @ Checkpoint True # post
    \<longrightarrow> post = [] \<and> r = None)
   \<and> (pages < max_pages \<and> f seen
      \<longrightarrow> pass1 e c (Some f) page_size max_pages pages offset total_songs all_albums w seen
          = (P1Return, w, seen @ [Checkpoint True]))
   \<and> (f seen
      \<longrightarrow> pass2 e c (Some f) progress_cb total_songs (album # albums) fetched w seen
          = (P2Return, w, seen @ [Checkpoint True]))
   \<and> (f seen
      \<longrightarrow> song_loop (Some f) progress_cb total_songs (song # songs) fetched seen
          = (True, fetched, seen @ [Checkpoint True]))
   \<and> (0 < max_pages \<and> f []
      \<longrightarrow> iter_all_songs_stream e c page_size max_pages progress_cb (Some f) w
          = (None, w, [Checkpoint True]))
   \<and> yielded (snd (snd (iter_all_songs_stream e c page_size max_pages progress_cb
        (Some (cancel_after n)) w)))
      = take n (yielded (snd (snd (iter_all_songs_stream e c page_size max_pages progress_cb None w))))
   \<and> (yielded (snd (snd (iter_all_songs_stream e c page_size max_pages progress_cb None w)))
        = first_albums @ later_albums
      \<longrightarrow> yielded (snd (snd (iter_all_songs_stream e c page_size max_pages progress_cb
            (Some (cancel_after (length first_albums))) w)))
          = first_albums)
   \<and> fst (iter_all_songs_stream (env_of (library_server four_albums four_songs)) (demo_client False)
        500 10000 True (Some (cancel_after 3)) fresh_world) = None
   \<and> yielded (snd (snd (iter_all_songs_stream (env_of (library_server four_albums four_songs))
        (demo_client False) 500 10000 True (Some (cancel_after 3)) fresh_world)))
      = [mk_song ''a1'', mk_song ''a2'', mk_song ''b1'']"
proof -
  have last: "post = [] \<and> r = None"
    if "iter_all_songs_stream e c page_size max_pages progress_cb cancel_flag w = (r, w', tr)
      \<and> tr = pre @ Checkpoint True # post"
    using that checkpoint_last by blast
  have page: "pass1 e c (Some f) page_size max_pages pages offset total_songs all_albums w seen
          = (P1Return, w, seen @ [Checkpoint True])"
    if "pages < max_pages \<and> f seen"
    using that by (simp add: pass1_polled)
  have album: "pass2 e c (Some f) progress_cb total_songs (album # albums) fetched w seen
          = (P2Return, w, seen @ [Checkpoint True])"
    if "f seen"
    using that by (rule pass2_polled)
  have song: "song_loop (Some f) progress_cb total_songs (song # songs) fetched seen
          = (True, fetched, seen @ [Checkpoint True])"
    if "f seen"
    using that by (rule song_loop_polled)
  have start: "iter_all_songs_stream e c page_size max_pages progress_cb (Some f) w
          = (None, w, [Checkpoint True])"
    if "0 < max_pages \<and> f []"
    using that by (simp add: stream_polled)
  have prefix: "yielded (snd (snd (iter_all_songs_stream e c page_size max_pages progress_cb
        (Some (cancel_after k)) w)))
      = take k (yielded (snd (snd (iter_all_songs_stream e c page_size max_pages progress_cb None w))))"
    for k
    by (rule stream_prefix)
  have first: "yielded (snd (snd (iter_all_songs_stream e c page_size max_pages progress_cb
            (Some (cancel_after (length first_albums))) w)))
          = first_albums"
    if "yielded (snd (snd (iter_all_songs_stream e c page_size max_pages progress_cb None w)))
        = first_albums @ later_albums"
    using that by (simp add: prefix)
  have none: "fst (iter_all_songs_stream (env_of (library_server four_albums four_songs)) (demo_client False)
        500 10000 True (Some (cancel_after 3)) fresh_world) = None"
    by (subst four_albums_run) simp
  have songs: "yielded (snd (snd (iter_all_songs_stream (env_of (library_server four_albums four_songs))
        (demo_client False) 500 10000 True (Some (cancel_after 3)) fresh_world)))
      = [mk_song ''a1'', mk_song ''a2'', mk_song ''b1'']"
    by (subst four_albums_run) simp
  show ?thesis
    using last page album song start prefix [of n] first none songs by blast
qed

theorem cancellation_ends_stream_witness:
  "snd (snd (iter_all_songs_stream (env_of (library_server four_albums four_songs)) (demo_client False)
        500 10000 True (Some (cancel_after 3)) fresh_world))
    = [Checkpoint False, Progress 0 6,
       Checkpoint False, Checkpoint False, Progress 1 6, Yield (mk_song ''a1''),
       Checkpoint False, Progress 2 6, Yield (mk_song ''a2''),
       Checkpoint False, Checkpoint False, Progress 3 6, Yield (mk_song ''b1'')] @ Checkpoint True # []
   \<and> fst (iter_all_songs_stream (env_of (library_server four_albums four_songs)) (demo_client False)
        500 10000 True (Some (cancel_after 3)) fresh_world) = None
   \<and> cancel_after 3 [Yield (mk_song ''a1''), Yield (mk_song ''a2''), Yield (mk_song ''b1'')]
   \<and> pass1 (env_of (library_server four_albums four_songs)) (demo_client False) (Some (cancel_after 3))
        500 10000 0 0 6 [] fresh_world [Yield (mk_song ''a1''), Yield (mk_song ''a2''), Yield (mk_song ''b1'')]
      = (P1Return, fresh_world,
         [Yield (mk_song ''a1''), Yield (mk_song ''a2''), Yield (mk_song ''b1'')] @ [Checkpoint True])
   \<and> pass2 (env_of (library_server four_albums four_songs)) (demo_client False) (Some (cancel_after 3))
        True 6 (mk_album ''c'' 1 # [mk_album ''d'' 2]) 3 fresh_world
        [Yield (mk_song ''a1''), Yield (mk_song ''a2''), Yield (mk_song ''b1'')]
      = (P2Return, fresh_world,
         [Yield (mk_song ''a1''), Yield (mk_song ''a2''), Yield (mk_song ''b1'')] @ [Checkpoint True])
   \<and> song_loop (Some (cancel_after 3)) True 6 (mk_song ''c1'' # []) 3
        [Yield (mk_song ''a1''), Yield (mk_song ''a2''), Yield (mk_song ''b1'')]
      = (True, 3, [Yield (mk_song ''a1''), Yield (mk_song ''a2''), Yield (mk_song ''b1'')] @ [Checkpoint True])
   \<and> cancel_after 0 []
   \<and> iter_all_songs_stream (env_of (library_server four_albums four_songs)) (demo_client False)
        500 10000 True (Some (cancel_after 0)) fresh_world
      = (None, fresh_world, [Checkpoint True])
   \<and> yielded (snd (snd (iter_all_songs_stream (env_of (library_server four_albums four_songs))
        (demo_client False) 500 10000 True None fresh_world)))
      = [mk_song ''a1'', mk_song ''a2'', mk_song ''b1''] @ [mk_song ''c1'', mk_song ''d1'', mk_song ''d2'']
   \<and> yielded (snd (snd (iter_all_songs_stream (env_of (library_server four_albums four_songs))
        (demo_client False) 500 10000 True
        (Some (cancel_after (length [mk_song ''a1'', mk_song ''a2'', mk_song ''b1'']))) fresh_world)))
      = [mk_song ''a1'', mk_song ''a2'', mk_song ''b1'']"
proof -
  let ?e = "env_of (library_server four_albums four_songs)" and ?c = "demo_client False"
  let ?run = "iter_all_songs_stream ?e ?c 500 10000 True (Some (cancel_after 3)) fresh_world"
  let ?out = "[Yield (mk_song ''a1''), Yield (mk_song ''a2''), Yield (mk_song ''b1'')]"
  have run: "?run = (fst ?run, fst (snd ?run), snd (snd ?run))" by simp
  have tr: "snd (snd ?run)
    = [Checkpoint False, Progress 0 6,
       Checkpoint False, Checkpoint False, Progress 1 6, Yield (mk_song ''a1''),
       Checkpoint False, Progress 2 6, Yield (mk_song ''a2''),
       Checkpoint False, Checkpoint False, Progress 3 6, Yield (mk_song ''b1'')] @ Checkpoint True # []"
    by (subst four_albums_run) simp
  have now: "cancel_after 3 ?out" and start: "cancel_after 0 []"
    by (simp_all add: cancel_after_def)
  have page: "(0::int) < 10000 \<and> cancel_after 3 ?out" and first: "(0::int) < 10000 \<and> cancel_after 0 []"
    using now start by simp_all
  have full: "yielded (snd (snd (iter_all_songs_stream ?e ?c 500 10000 True None fresh_world)))
      = [mk_song ''a1'', mk_song ''a2'', mk_song ''b1''] @ [mk_song ''c1'', mk_song ''d1'', mk_song ''d2'']"
    by (simp add: four_albums_full)
  note here = cancellation_ends_stream [where e = ?e and c = ?c and page_size = 500 and max_pages = 10000
      and progress_cb = True and cancel_flag = "Some (cancel_after 3)" and w = fresh_world
      and f = "cancel_after 3" and seen = ?out and pages = 0 and offset = 0 and total_songs = 6
      and all_albums = "[]" and album = "mk_album ''c'' 1" and albums = "[mk_album ''d'' 2]" and fetched = 3
      and song = "mk_song ''c1''" and songs = "[]"
      and first_albums = "[mk_song ''a1'', mk_song ''a2'', mk_song ''b1'']"
      and later_albums = "[mk_song ''c1'', mk_song ''d1'', mk_song ''d2'']"]
  note there = cancellation_ends_stream [where e = ?e and c = ?c and page_size = 500 and max_pages = 10000
      and progress_cb = True and w = fresh_world and f = "cancel_after 0"]
  note rest1 = here [THEN conjunct2]
  note rest2 = rest1 [THEN conjunct2]
  note rest3 = rest2 [THEN conjunct2]
  note rest4 = there [THEN conjunct2, THEN conjunct2, THEN conjunct2, THEN conjunct2]
  note rest6 = rest3 [THEN conjunct2, THEN conjunct2, THEN conjunct2]
  have a: "fst ?run = None"
    using here [THEN conjunct1, rule_format, OF conjI, OF run tr] by simp
  have b: "pass1 ?e ?c (Some (cancel_after 3)) 500 10000 0 0 6 [] fresh_world ?out
      = (P1Return, fresh_world, ?out @ [Checkpoint True])"
    using rest1 [THEN conjunct1, rule_format, OF page] .
  have c: "pass2 ?e ?c (Some (cancel_after 3)) True 6 (mk_album ''c'' 1 # [mk_album ''d'' 2]) 3 fresh_world ?out
      = (P2Return, fresh_world, ?out @ [Checkpoint True])"
    using rest2 [THEN conjunct1, rule_format, OF now] .
  have d: "song_loop (Some (cancel_after 3)) True 6 (mk_song ''c1'' # []) 3 ?out
      = (True, 3, ?out @ [Checkpoint True])"
    using rest3 [THEN conjunct1, rule_format, OF now] .
  have e: "iter_all_songs_stream ?e ?c 500 10000 True (Some (cancel_after 0)) fresh_world
      = (None, fresh_world, [Checkpoint True])"
    using rest4 [THEN conjunct1, rule_format, OF first] .
  have f: "yielded (snd (snd (iter_all_songs_stream ?e ?c 500 10000 True
        (Some (cancel_after (length [mk_song ''a1'', mk_song ''a2'', mk_song ''b1'']))) fresh_world)))
      = [mk_song ''a1'', mk_song ''a2'', mk_song ''b1'']"
    using rest6 [THEN conjunct1, rule_format, OF full] .
  show ?thesis
    using tr a now b c d start e full f by (intro conjI)
qed


subsubsection \<open>The total of pass 1\<close>

lemma count_page_dicts:
  "\<forall>a \<in> set items. is_dict a
    \<Longrightarrow> count_page e items acc = Inr (acc + sum_list (map (song_count_of e) items))"
proof (induction items arbitrary: acc)
  case Nil
  then show ?case by simp
next
  case (Cons a items)
  then obtain kvs where a: "a = JDict kvs" by (cases a) (auto simp: is_dict_def)
  have rest: "\<forall>a \<in> set items. is_dict a" using Cons.prems by simp
  show ?case
    using Cons.IH [OF rest] a
    by (simp add: py_get_def song_count_of_def split: option.splits)
qed

lemma album_list2_key_inj:
  assumes "0 \<le> o1" and "0 \<le> o2"
    and "album_list2_key c list_type sz o1 = album_list2_key c list_type sz o2"
  shows "o1 = o2"
proof -
  have "str_int o1 = str_int o2" using assms(3) by (simp add: album_list2_key_def)
  then show ?thesis using assms(1,2) by (rule str_int_inj [rotated 2])
qed

lemma global_cache_priv_get: "global_cache (snd (priv_get e c endpoint params w)) = global_cache w"
  by (simp add: priv_get_def priv_request_def Let_def split: response.splits)

lemma cache_get_priv_get: "cache_get (snd (priv_get e c endpoint params w)) k = cache_get w k"
  by (simp add: cache_get_def global_cache_priv_get)

lemma cache_get_set_other: "k \<noteq> key \<Longrightarrow> cache_get (cache_set key data w) k = cache_get w k"
  by (simp add: cache_get_def cache_set_def split: option.splits)

lemma cache_get_after_list2:
  assumes "k \<noteq> album_list2_key c list_type sz offset"
  shows "cache_get (snd (get_album_list2 e c list_type sz offset w)) k = cache_get w k"
proof -
  obtain r w1 where g: "priv_get e c ''/rest/getAlbumList2.view'' (album_list2_params list_type sz offset) w = (r, w1)"
    by (cases "priv_get e c ''/rest/getAlbumList2.view'' (album_list2_params list_type sz offset) w")
  have w1: "cache_get w1 k = cache_get w k"
    using cache_get_priv_get [of e c "''/rest/getAlbumList2.view''" "album_list2_params list_type sz offset" w k] g
    by simp
  show ?thesis
    using assms g w1
    by (simp add: get_album_list2_def Let_def cache_get_set_other split: sum.splits)
qed

lemma library_page_request_any:
  "server e = library_server catalog songs_of
    \<Longrightarrow> server e history
     (build_request e c ''/rest/getAlbumList2.view''
        (album_list2_params list_type sz offset) ''GET'' None n)
   = envelope [(''albumList2'',
       JDict [(''album'', JList (take (nat_of_dec (str_int sz)) (drop (nat_of_dec (str_int offset)) catalog)))])]"
  by (simp add: build_request_def Let_def upper_GET norm_endpoint_def library_server_def
      priv_auth_params_def album_list2_params_def)

lemma library_page_any:
  assumes "server e = library_server catalog songs_of"
    and "enable_cache c \<longrightarrow> cache_get w (album_list2_key c list_type sz offset) = JNull"
    and "0 \<le> sz" and "0 \<le> offset"
  shows "fst (get_album_list2 e c list_type sz offset w)
     = Inr (JList (take (nat sz) (drop (nat offset) catalog)))"
  using assms(2-)
  by (simp add: fst_get_album_list2_miss fst_priv_get library_page_request_any [OF assms(1)] envelope_def
      check_envelope_ok list_field_def dict_get_def py_get_def wrap_single_def is_dict_def nat_of_dec_str_int)

lemma library_page_served:
  assumes "server e = library_server catalog songs_of"
    and "enable_cache c \<longrightarrow>
          cache_get w (album_list2_key c list_type sz offset) = JNull
          \<or> cache_get w (album_list2_key c list_type sz offset)
              = JList (take (nat sz) (drop (nat offset) catalog))"
    and "0 \<le> sz" and "0 \<le> offset"
  shows "fst (get_album_list2 e c list_type sz offset w)
     = Inr (JList (take (nat sz) (drop (nat offset) catalog)))"
proof (cases "enable_cache c \<and> cache_get w (album_list2_key c list_type sz offset) \<noteq> JNull")
  case True
  then show ?thesis using assms(2) by (simp add: get_album_list2_def Let_def)
next
  case False
  then have "enable_cache c \<longrightarrow> cache_get w (album_list2_key c list_type sz offset) = JNull" by blast
  from library_page_any [OF assms(1) this assms(3,4)] show ?thesis .
qed

lemma cache_served_after:
  assumes srv: "server e = library_server catalog songs_of"
    and inv: "\<forall>off \<ge> 0. cache_get w (album_list2_key c list_type sz off) = JNull
          \<or> cache_get w (album_list2_key c list_type sz off) = JList (take (nat sz) (drop (nat off) catalog))"
    and on: "enable_cache c" and sz: "0 \<le> sz" and offset: "0 \<le> offset" and off: "0 \<le> off"
  shows "cache_get (snd (get_album_list2 e c list_type sz offset w)) (album_list2_key c list_type sz off) = JNull
      \<or> cache_get (snd (get_album_list2 e c list_type sz offset w)) (album_list2_key c list_type sz off)
          = JList (take (nat sz) (drop (nat off) catalog))"
proof (cases "off = offset")
  case True
  have here: "enable_cache c \<longrightarrow>
          cache_get w (album_list2_key c list_type sz offset) = JNull
          \<or> cache_get w (album_list2_key c list_type sz offset)
              = JList (take (nat sz) (drop (nat offset) catalog))"
    using inv offset by simp
  from library_page_served [OF srv here sz offset]
  have "get_album_list2 e c list_type sz offset w
      = (Inr (JList (take (nat sz) (drop (nat offset) catalog))), snd (get_album_list2 e c list_type sz offset w))"
    by (simp add: prod_eq_iff)
  from get_album_list2_cases [OF this on] show ?thesis using True by simp
next
  case False
  then have "album_list2_key c list_type sz off \<noteq> album_list2_key c list_type sz offset"
    using album_list2_key_inj [OF off offset] by blast
  then have "cache_get (snd (get_album_list2 e c list_type sz offset w)) (album_list2_key c list_type sz off)
      = cache_get w (album_list2_key c list_type sz off)"
    by (rule cache_get_after_list2)
  then show ?thesis using inv off by simp
qed

lemma pass1_library:
  assumes srv: "server e = library_server catalog songs_of"
    and ps: "1 \<le> page_size"
    and dicts: "\<forall>a \<in> set catalog. is_dict a"
  shows "m = nat (max_pages - pages)
    \<Longrightarrow> enable_cache c \<longrightarrow>
          (\<forall>off \<ge> 0. cache_get w (album_list2_key c ''alphabeticalByName'' page_size off) = JNull
             \<or> cache_get w (album_list2_key c ''alphabeticalByName'' page_size off)
                 = JList (take (nat page_size) (drop (nat off) catalog)))
    \<Longrightarrow> yielded tr = []
    \<Longrightarrow> fst (pass1 e c cancel_flag page_size max_pages pages (int j) total_songs all_albums w tr)
          = P1Done (total_songs + sum_list (map (song_count_of e) (take (nat page_size * m) (drop j catalog))))
              (all_albums @ take (nat page_size * m) (drop j catalog))
       \<or> fst (pass1 e c cancel_flag page_size max_pages pages (int j) total_songs all_albums w tr) = P1Return
          \<and> (\<exists>t. yielded t = [] \<and> fst (poll cancel_flag t))"
proof (induction m arbitrary: pages j total_songs all_albums w tr)
  case 0
  then have "\<not> pages < max_pages" by simp
  then show ?case by (simp add: pass1_exit)
next
  case (Suc m)
  let ?P = "nat page_size"
  let ?rest = "drop j catalog"
  let ?page = "take ?P ?rest"
  let ?key = "\<lambda>off. album_list2_key c ''alphabeticalByName'' page_size off"
  have P: "1 \<le> ?P" "int ?P = page_size" using ps by simp_all
  have lt: "pages < max_pages" using Suc.prems(1) by simp
  obtain b tr1 where p: "poll cancel_flag tr = (b, tr1)" by (cases "poll cancel_flag tr")
  show ?case
  proof (cases b)
    case True
    then have "pass1 e c cancel_flag page_size max_pages pages (int j) total_songs all_albums w tr
        = (P1Return, w, tr1)"
      using lt p by (simp add: pass1_cancelled)
    moreover have "yielded tr = [] \<and> fst (poll cancel_flag tr)" using Suc.prems(3) p True by simp
    ultimately show ?thesis by auto
  next
    case nb: False
    then have p': "poll cancel_flag tr = (False, tr1)" using p by simp
    from poll_ext [OF p] have quiet: "yielded tr1 = []" using Suc.prems(3) by (auto simp: yielded_append)
    let ?w1 = "snd (get_album_list2 e c ''alphabeticalByName'' page_size (int j) w)"
    have here: "enable_cache c \<longrightarrow> cache_get w (?key (int j)) = JNull
        \<or> cache_get w (?key (int j)) = JList (take (nat page_size) (drop (nat (int j)) catalog))"
    proof
      assume c: "enable_cache c"
      have "(0::int) \<le> int j" by simp
      with Suc.prems(2) c have "cache_get w (?key (int j)) = JNull
          \<or> cache_get w (?key (int j)) = JList (take (nat page_size) (drop (nat (int j)) catalog))"
        by blast
      then show "cache_get w (?key (int j)) = JNull
          \<or> cache_get w (?key (int j)) = JList (take (nat page_size) (drop (nat (int j)) catalog))" .
    qed
    have "fst (get_album_list2 e c ''alphabeticalByName'' page_size (int j) w)
        = Inr (JList (take (nat page_size) (drop (nat (int j)) catalog)))"
      using ps by (intro library_page_served [OF srv here]) simp_all
    then have g: "get_album_list2 e c ''alphabeticalByName'' page_size (int j) w = (Inr (JList ?page), ?w1)"
      by (simp add: prod_eq_iff)
    note step = pass1_step [OF lt p' g, where total_songs = total_songs and all_albums = all_albums]
    show ?thesis
    proof (cases "?page = []")
      case True
      then have "?rest = []" using ps by (auto simp: take_eq_Nil)
      then show ?thesis using step True by (simp add: truthy_def)
    next
      case ne: False
      have "\<forall>a \<in> set ?page. is_dict a" using dicts by (meson in_set_dropD in_set_takeD)
      then have cp: "count_page e ?page 0 = Inr (sum_list (map (song_count_of e) ?page))"
        using count_page_dicts [of ?page e 0] by simp
      show ?thesis
      proof (cases "int (length ?page) < page_size")
        case True
        then have short: "length ?rest < ?P" by (simp add: min_def split: if_splits)
        then have "?page = ?rest" by simp
        moreover have "take (?P * Suc m) ?rest = ?rest" using short by simp
        ultimately show ?thesis using step ne cp True by (simp add: truthy_def py_iter_def)
      next
        case False
        have run: "pass1 e c cancel_flag page_size max_pages pages (int j) total_songs all_albums w tr
            = pass1 e c cancel_flag page_size max_pages (pages + 1) (int j + page_size)
                (total_songs + sum_list (map (song_count_of e) ?page)) (all_albums @ ?page) ?w1 tr1"
          using step ne cp False by (simp add: truthy_def py_iter_def)
        have off: "int j + page_size = int (j + ?P)" using P(2) by simp
        have m: "m = nat (max_pages - (pages + 1))" using Suc.prems(1) by simp
        have inv: "enable_cache c \<longrightarrow>
            (\<forall>off \<ge> 0. cache_get ?w1 (?key off) = JNull
               \<or> cache_get ?w1 (?key off) = JList (take (nat page_size) (drop (nat off) catalog)))"
        proof (intro impI allI)
          fix off :: int assume c: "enable_cache c" and o: "0 \<le> off"
          have old: "\<forall>off \<ge> 0. cache_get w (?key off) = JNull
              \<or> cache_get w (?key off) = JList (take (nat page_size) (drop (nat off) catalog))"
            using Suc.prems(2) c by simp
          have z: "0 \<le> page_size" "0 \<le> int j" using ps by simp_all
          from cache_served_after [OF srv old c z o]
          show "cache_get ?w1 (?key off) = JNull
              \<or> cache_get ?w1 (?key off) = JList (take (nat page_size) (drop (nat off) catalog))" .
        qed
        have split: "take (?P * Suc m) ?rest = ?page @ take (?P * m) (drop (j + ?P) catalog)"
          by (simp add: take_add add.commute)
        note ih = Suc.IH [OF m inv quiet, of "j + ?P" "total_songs + sum_list (map (song_count_of e) ?page)"
              "all_albums @ ?page", folded off]
        show ?thesis
          unfolding run split
          using ih by (simp only: map_append sum_list.append add.assoc append_assoc)
      qed
    qed
  qed
qed


lemma song_count_of_mk_album: "song_count_of e (mk_album album_id n) = n"
  by (simp add: song_count_of_def mk_album_def py_get_def dict_get_def py_int_def)

lemma counted_albums_sum: "sum_list (map (song_count_of e) counted_albums) = 10"
  by (simp add: counted_albums_def song_count_of_mk_album)

lemma counted_albums_dicts: "\<forall>a \<in> set counted_albums. is_dict a"
  by (simp add: counted_albums_def mk_album_def is_dict_def)

text \<open>
  Claim C5, as the code has it. The server holds a catalog and answers each page request
  with the slice asked for; every album of the catalog is an object; the page size is at
  least 1; when the client caches, the cache holds, for each offset, either nothing or
  the page the server would serve there. Then pass 1 either returns at a checkpoint where
  the cancellation predicate answered true, or collects the first
  \<open>page_size * max_pages\<close> albums of the catalog, and its total is the sum of the song
  counts they report. When the predicate answers false as long as no song is out (as it
  does when none is given), pass 1 does the latter. When moreover the catalog has at most
  \<open>page_size * max_pages\<close> albums, that is the whole catalog and the sum of all reported
  counts, whatever the page size. For the counts 3, 5, 0, 2 and the default cap of 10000
  pages the total is 10 for every page size.
\<close>

theorem pass1_total:
  assumes "server e = library_server catalog songs_of"
    and "1 \<le> page_size"
    and "\<forall>a \<in> set catalog. is_dict a"
    and "enable_cache c \<longrightarrow>
          (\<forall>off \<ge> 0. cache_get w (album_list2_key c ''alphabeticalByName'' page_size off) = JNull
             \<or> cache_get w (album_list2_key c ''alphabeticalByName'' page_size off)
                 = JList (take (nat page_size) (drop (nat off) catalog)))"
  shows "(fst (pass1 e c cancel_flag page_size max_pages 0 0 0 [] w []) = P1Return
          \<or> fst (pass1 e c cancel_flag page_size max_pages 0 0 0 [] w [])
              = P1Done (sum_list (map (song_count_of e) (take (nat page_size * nat max_pages) catalog)))
                  (take (nat page_size * nat max_pages) catalog))
       \<and> ((\<forall>t. yielded t = [] \<longrightarrow> \<not> fst (poll cancel_flag t))
          \<longrightarrow> fst (pass1 e c cancel_flag page_size max_pages 0 0 0 [] w [])
              = P1Done (sum_list (map (song_count_of e) (take (nat page_size * nat max_pages) catalog)))
                  (take (nat page_size * nat max_pages) catalog))
       \<and> ((\<forall>t. yielded t = [] \<longrightarrow> \<not> fst (poll cancel_flag t))
            \<and> int (length catalog) \<le> page_size * max_pages
          \<longrightarrow> fst (pass1 e c cancel_flag page_size max_pages 0 0 0 [] w [])
              = P1Done (sum_list (map (song_count_of e) catalog)) catalog)
       \<and> ((\<forall>t. yielded t = [] \<longrightarrow> \<not> fst (poll cancel_flag t))
            \<and> catalog = counted_albums \<and> max_pages = 10000
          \<longrightarrow> fst (pass1 e c cancel_flag page_size max_pages 0 0 0 [] w []) = P1Done 10 counted_albums)"
proof -
  let ?run = "fst (pass1 e c cancel_flag page_size max_pages 0 0 0 [] w [])"
  let ?capped = "P1Done (sum_list (map (song_count_of e) (take (nat page_size * nat max_pages) catalog)))
      (take (nat page_size * nat max_pages) catalog)"
  have m: "nat max_pages = nat (max_pages - 0)" by simp
  have quiet: "yielded [] = []" by simp
  from pass1_library [OF assms(1-3) m assms(4) quiet, of cancel_flag 0 0 "[]"]
  have either: "?run = ?capped \<or> ?run = P1Return \<and> (\<exists>t. yielded t = [] \<and> fst (poll cancel_flag t))"
    by simp
  then have first: "?run = P1Return \<or> ?run = ?capped" by blast
  have capped: "?run = ?capped" if "\<forall>t. yielded t = [] \<longrightarrow> \<not> fst (poll cancel_flag t)"
    using either that by blast
  have whole: "take (nat page_size * nat max_pages) catalog = catalog"
    if "int (length catalog) \<le> page_size * max_pages"
  proof -
    have "0 \<le> max_pages"
    proof (rule ccontr)
      assume "\<not> 0 \<le> max_pages"
      then have "page_size * max_pages < 0" using assms(2) by (simp add: mult_pos_neg)
      then show False using that by simp
    qed
    then have "int (nat page_size * nat max_pages) = page_size * max_pages" using assms(2) by simp
    then have "length catalog \<le> nat page_size * nat max_pages" using that by linarith
    then show ?thesis by simp
  qed
  have all: "?run = P1Done (sum_list (map (song_count_of e) catalog)) catalog"
    if "(\<forall>t. yielded t = [] \<longrightarrow> \<not> fst (poll cancel_flag t))
        \<and> int (length catalog) \<le> page_size * max_pages"
    using capped whole that by simp
  have small: "int (length counted_albums) \<le> page_size * 10000"
    using assms(2) by (simp add: counted_albums_def)
  have particular: "?run = P1Done 10 counted_albums"
    if "(\<forall>t. yielded t = [] \<longrightarrow> \<not> fst (poll cancel_flag t))
        \<and> catalog = counted_albums \<and> max_pages = 10000"
    using all small that by (simp add: counted_albums_sum)
  show ?thesis
    using first capped all particular by blast
qed

lemma server_env_of: "server (env_of srv) = srv"
  by (simp add: env_of_def)

text \<open>
  Claim C5 as stated fails when the page cap is reached before the catalog ends: with
  pages of two albums and a cap of one page, the total for the counts 3, 5, 0, 2 is 8.
\<close>

theorem pass1_total_counterexample:
  "fst (pass1 (env_of (library_server counted_albums one_song_each)) (demo_client False) None 2 1 0 0 0 []
         fresh_world [])
     = P1Done 8 [mk_album ''a'' 3, mk_album ''b'' 5]"
proof -
  have nc: "enable_cache (demo_client False) \<longrightarrow>
      (\<forall>off \<ge> 0. cache_get fresh_world
          (album_list2_key (demo_client False) ''alphabeticalByName'' 2 off) = JNull
        \<or> cache_get fresh_world (album_list2_key (demo_client False) ''alphabeticalByName'' 2 off)
            = JList (take (nat 2) (drop (nat off) counted_albums)))"
    by (simp add: demo_client_def)
  have m: "Suc 0 = nat (1 - 0)" by simp
  have ps: "(1::int) \<le> 2" by simp
  have quiet: "yielded [] = []" by simp
  show ?thesis
    using pass1_library [OF server_env_of ps counted_albums_dicts m nc quiet,
        of one_song_each None 0 0 "[]"]
    by (simp add: counted_albums_def song_count_of_mk_album poll_def)
qed

theorem pass1_total_witness:
  "list_all is_dict counted_albums
   \<and> fst (pass1 (env_of (library_server counted_albums one_song_each)) (demo_client True) None 1 10000 0 0 0 []
         cached_world []) = P1Done 10 counted_albums
   \<and> fst (pass1 (env_of (library_server counted_albums one_song_each)) (demo_client True)
         (Some (cancel_after 3)) 3 10000 0 0 0 [] cached_world []) = P1Done 10 counted_albums
   \<and> cache_get (snd (get_album_list2 (env_of (library_server counted_albums one_song_each)) (demo_client True)
         ''alphabeticalByName'' 3 0 cached_world))
       (album_list2_key (demo_client True) ''alphabeticalByName'' 3 0)
      = JList [mk_album ''a'' 3, mk_album ''b'' 5, mk_album ''c'' 0]
   \<and> fst (pass1 (env_of (library_server counted_albums one_song_each)) (demo_client True) None 3 10000 0 0 0 []
         (snd (get_album_list2 (env_of (library_server counted_albums one_song_each)) (demo_client True)
            ''alphabeticalByName'' 3 0 cached_world)) []) = P1Done 10 counted_albums
   \<and> fst (pass1 (env_of (library_server counted_albums one_song_each)) (demo_client False) None 4 10000 0 0 0 []
         fresh_world []) = P1Done 10 counted_albums
   \<and> fst (pass1 (env_of (library_server counted_albums one_song_each)) (demo_client True) None 500 2 0 0 0 []
         cached_world []) = P1Done 10 counted_albums"
proof -
  let ?e = "env_of (library_server counted_albums one_song_each)" and ?c = "demo_client True"
  let ?warm = "snd (get_album_list2 ?e ?c ''alphabeticalByName'' 3 0 cached_world)"
  have on: "enable_cache ?c" by (simp add: demo_client_def)
  have cold: "\<forall>off \<ge> 0. cache_get cached_world (album_list2_key ?c ''alphabeticalByName'' page_size off) = JNull
        \<or> cache_get cached_world (album_list2_key ?c ''alphabeticalByName'' page_size off)
            = JList (take (nat page_size) (drop (nat off) counted_albums))" for page_size
    by (simp add: cache_get_def cached_world_def)
  have clean: "enable_cache ?c \<longrightarrow>
      (\<forall>off \<ge> 0. cache_get cached_world (album_list2_key ?c ''alphabeticalByName'' page_size off) = JNull
        \<or> cache_get cached_world (album_list2_key ?c ''alphabeticalByName'' page_size off)
            = JList (take (nat page_size) (drop (nat off) counted_albums)))" for page_size
    using cold by simp
  have off: "enable_cache (demo_client False) \<longrightarrow>
      (\<forall>off \<ge> 0. cache_get fresh_world (album_list2_key (demo_client False) ''alphabeticalByName'' 4 off) = JNull
        \<or> cache_get fresh_world (album_list2_key (demo_client False) ''alphabeticalByName'' 4 off)
            = JList (take (nat 4) (drop (nat off) counted_albums)))"
    by (simp add: demo_client_def)
  have z: "(0::int) \<le> 3" "(0::int) \<le> 0" by simp_all
  have warm: "enable_cache ?c \<longrightarrow>
      (\<forall>off \<ge> 0. cache_get ?warm (album_list2_key ?c ''alphabeticalByName'' 3 off) = JNull
        \<or> cache_get ?warm (album_list2_key ?c ''alphabeticalByName'' 3 off)
            = JList (take (nat 3) (drop (nat off) counted_albums)))"
    using cache_served_after [OF server_env_of cold on z] by blast
  have here: "enable_cache ?c \<longrightarrow>
          cache_get cached_world (album_list2_key ?c ''alphabeticalByName'' 3 0) = JNull
          \<or> cache_get cached_world (album_list2_key ?c ''alphabeticalByName'' 3 0)
              = JList (take (nat 3) (drop (nat 0) counted_albums))"
    by (simp add: cache_get_def cached_world_def)
  from library_page_served [OF server_env_of here z]
  have "get_album_list2 ?e ?c ''alphabeticalByName'' 3 0 cached_world
      = (Inr (JList (take (nat 3) (drop (nat 0) counted_albums))), ?warm)"
    by (simp add: prod_eq_iff)
  from get_album_list2_cases [OF this on]
  have stored: "cache_get ?warm (album_list2_key ?c ''alphabeticalByName'' 3 0)
      = JList [mk_album ''a'' 3, mk_album ''b'' 5, mk_album ''c'' 0]"
    by (simp add: counted_albums_def)
  have one: "(1::int) \<le> 1" and three: "(1::int) \<le> 3" and four: "(1::int) \<le> 4" and many: "(1::int) \<le> 500"
    by simp_all
  have len: "int (length counted_albums) \<le> 500 * 2" by (simp add: counted_albums_def)
  have never: "\<forall>t. yielded t = [] \<longrightarrow> \<not> fst (poll None t)"
    and later: "\<forall>t. yielded t = [] \<longrightarrow> \<not> fst (poll (Some (cancel_after 3)) t)"
    by (simp_all add: poll_def cancel_after_def)
  show ?thesis
    using pass1_total [where songs_of = one_song_each and max_pages = 10000 and cancel_flag = None,
        OF server_env_of one counted_albums_dicts clean]
      pass1_total [where songs_of = one_song_each and max_pages = 10000
        and cancel_flag = "Some (cancel_after 3)",
        OF server_env_of three counted_albums_dicts clean]
      pass1_total [where songs_of = one_song_each and max_pages = 10000 and cancel_flag = None,
        OF server_env_of three counted_albums_dicts warm]
      pass1_total [where songs_of = one_song_each and max_pages = 10000 and cancel_flag = None,
        OF server_env_of four counted_albums_dicts off]
      pass1_total [where songs_of = one_song_each and max_pages = 2 and cancel_flag = None,
        OF server_env_of many counted_albums_dicts clean]
      counted_albums_dicts len never later stored
    by (simp add: counted_albums_sum list_all_iff)
qed

end
